theory Spec2Isabelle
  imports Complex_Main "HOL-Library.Char_ord" "HOL-Library.List_Lexorder" "HOL-Library.Multiset"
begin

section \<open>Float cells\<close>

text \<open>
  A cell of a float64 column is a \<open>real option\<close>: \<open>None\<close> is NaN (pandas' "absent"),
  \<open>Some x\<close> a finite value. Rounding and the infinities are not modelled; every comparison
  with NaN is false, as in IEEE arithmetic.
\<close>

type_synonym cell = "real option"

fun fle :: "cell \<Rightarrow> cell \<Rightarrow> bool" where
  "fle (Some a) (Some b) = (a \<le> b)"
| "fle _ _ = False"

fun fge :: "cell \<Rightarrow> cell \<Rightarrow> bool" where
  "fge (Some a) (Some b) = (a \<ge> b)"
| "fge _ _ = False"

section \<open>JSON values, dictionaries and exceptions\<close>

text \<open>
  A parsed JSON body: a string or an object. An object is a Python \<open>dict\<close>: its keys are
  distinct and keep their insertion order.
\<close>

datatype json = JString string | JObject "(string \<times> json) list"

type_synonym payload = "(string \<times> json) list"

text \<open>\<open>d[k] = v\<close>: an existing key keeps its place, a new key goes last.\<close>

fun dict_set :: "'k \<Rightarrow> 'v \<Rightarrow> ('k \<times> 'v) list \<Rightarrow> ('k \<times> 'v) list" where
  "dict_set k v [] = [(k, v)]"
| "dict_set k v ((k', v') # d) = (if k = k' then (k, v) # d else (k', v') # dict_set k v d)"

text \<open>\<open>k in d\<close> and \<open>d.get(k, default)\<close>.\<close>

definition has_key :: "'k \<Rightarrow> ('k \<times> 'v) list \<Rightarrow> bool" where
  "has_key k d = (map_of d k \<noteq> None)"

definition get_or :: "('k \<times> 'v) list \<Rightarrow> 'k \<Rightarrow> 'v \<Rightarrow> 'v" where
  "get_or d k dflt = (case map_of d k of None \<Rightarrow> dflt | Some v \<Rightarrow> v)"

text \<open>
  The exceptions the code raises, as values. \<open>AlphaVantageError\<close> carries its message,
  which the client often takes from the body as it is.
\<close>

datatype py_error =
    IndexError
  | KeyError string
  | DivisionByZero
  | ValueError string
  | TypeError string
  | AttributeError string
  | RuntimeError string
  | AlphaVantageError json

text \<open>Sequencing of two steps of which the first may raise.\<close>

definition and_then :: "'e + 'a \<Rightarrow> ('a \<Rightarrow> 'e + 'b) \<Rightarrow> 'e + 'b" where
  "and_then r f = (case r of Inl e \<Rightarrow> Inl e | Inr x \<Rightarrow> f x)"

section \<open>features.py\<close>

subsection \<open>Running peak and drawdown (\<open>add_features\<close>, lines 26--27)\<close>

text \<open>
  \<open>close.cummax()\<close>: the running maximum of the defined cells seen so far; a NaN cell
  yields NaN and leaves the running maximum unchanged.
\<close>

fun cummax_acc :: "cell \<Rightarrow> cell list \<Rightarrow> cell list" where
  "cummax_acc m [] = []"
| "cummax_acc m (None # xs) = None # cummax_acc m xs"
| "cummax_acc None (Some x # xs) = Some x # cummax_acc (Some x) xs"
| "cummax_acc (Some y) (Some x # xs) = Some (max y x) # cummax_acc (Some (max y x)) xs"

definition cummax :: "cell list \<Rightarrow> cell list" where
  "cummax xs = cummax_acc None xs"

text \<open>
  \<open>close / peak - 1.0\<close>, cell by cell. A zero peak gives an infinity or NaN in float64;
  the model returns \<open>None\<close> there.
\<close>

fun drawdown_cell :: "cell \<Rightarrow> cell \<Rightarrow> cell" where
  "drawdown_cell (Some c) (Some p) = (if p = 0 then None else Some (c / p - 1))"
| "drawdown_cell _ _ = None"

definition peak_to_date :: "cell list \<Rightarrow> cell list" where
  "peak_to_date close = cummax close"

definition drawdown_pct :: "cell list \<Rightarrow> cell list" where
  "drawdown_pct close = map2 drawdown_cell close (peak_to_date close)"

subsection \<open>Rolling volatility (\<open>add_features\<close>, lines 22--24)\<close>

text \<open>\<open>Series.fillna(0)\<close>.\<close>

definition fillna0 :: "cell list \<Rightarrow> cell list" where
  "fillna0 xs = map (\<lambda>c. case c of None \<Rightarrow> Some 0 | Some x \<Rightarrow> Some x) xs"

text \<open>
  \<open>Series.rolling(n)\<close> followed by a statistic \<open>f\<close>: row \<open>i\<close> looks at the \<open>n\<close> rows
  ending at \<open>i\<close>. The default \<open>min_periods\<close> equals the window length, so the result is
  NaN until \<open>n\<close> rows are available and whenever the window holds a NaN.
\<close>

definition rolling :: "nat \<Rightarrow> (real list \<Rightarrow> cell) \<Rightarrow> cell list \<Rightarrow> cell list" where
  "rolling n f xs =
     map (\<lambda>i. if Suc i < n then None
              else (let w = take n (drop (Suc i - n) xs)
                    in if None \<in> set w then None else f (map the w)))
         [0..<length xs]"

definition mean :: "real list \<Rightarrow> real" where
  "mean xs = sum_list xs / real (length xs)"

text \<open>\<open>.std()\<close>: the sample standard deviation (one degree of freedom removed).\<close>

definition std :: "real list \<Rightarrow> cell" where
  "std xs = (if length xs < 2 then None
             else Some (sqrt (sum_list (map (\<lambda>x. (x - mean xs)\<^sup>2) xs) / real (length xs - 1))))"

definition fscale :: "real \<Rightarrow> cell \<Rightarrow> cell" where
  "fscale k c = map_option (\<lambda>x. x * k) c"

text \<open>
  The argument is the column \<open>log_ret_1d\<close>;
  \<open>returns = g["log_ret_1d"].fillna(0)\<close> and
  \<open>g["vol_60"] = returns.rolling(60).std() * np.sqrt(252)\<close>.
\<close>

definition vol_20 :: "cell list \<Rightarrow> cell list" where
  "vol_20 log_ret_1d = map (fscale (sqrt 252)) (rolling 20 std (fillna0 log_ret_1d))"

definition vol_60 :: "cell list \<Rightarrow> cell list" where
  "vol_60 log_ret_1d = map (fscale (sqrt 252)) (rolling 60 std (fillna0 log_ret_1d))"

subsection \<open>Volatility regime (\<open>_vol_regime\<close>)\<close>

text \<open>
  \<open>Series.quantile(q)\<close> with pandas' default linear interpolation: NaN cells are skipped,
  the defined values are sorted, and the value at the fractional position \<open>q * (n - 1)\<close> is
  interpolated between its two neighbours. A column without a defined value gives NaN.
\<close>

definition quantile :: "real \<Rightarrow> cell list \<Rightarrow> cell" where
  "quantile q col =
     (let vs = sort (List.map_filter id col); n = length vs
      in if n = 0 then None
         else (let pos = q * real (n - 1); lo = nat \<lfloor>pos\<rfloor>; frac = pos - real lo
               in if Suc lo < n then Some (vs ! lo + (vs ! Suc lo - vs ! lo) * frac)
                  else Some (vs ! (n - 1))))"

text \<open>
  \<open>np.select([vol <= q_low, vol >= q_high], ["Low", "High"], default="Med")\<close>: the first
  condition that holds decides, and a row where none holds gets the default.
\<close>

definition vol_regime :: "cell list \<Rightarrow> string list" where
  "vol_regime vol =
     (let q_low = quantile (33 / 100) vol; q_high = quantile (67 / 100) vol
      in map (\<lambda>v. if fle v q_low then ''Low''
                   else if fge v q_high then ''High''
                   else ''Med'') vol)"

text \<open>
  \<open>df.groupby("ticker").apply(_per_ticker)\<close> hands each instrument's rows to
  \<open>_per_ticker\<close> separately; here the groups are given with their \<open>log_ret_1d\<close> column.
\<close>

definition vol_regime_by_ticker :: "(string \<times> cell list) list \<Rightarrow> (string \<times> string list) list" where
  "vol_regime_by_ticker groups = map (\<lambda>(t, log_ret_1d). (t, vol_regime (vol_60 log_ret_1d))) groups"

section \<open>The default sort of \<open>sort_values\<close>\<close>

text \<open>
  \<open>df.sort_values("date")\<close> leaves the sorting algorithm at pandas' default,
  \<open>kind="quicksort"\<close>, which pandas documents as not stable: it takes the rows in the order
  of \<open>numpy.argsort(dates, kind="quicksort")\<close>. For a datetime column that is numpy's
  introsort on an array \<open>tosort\<close> of row positions, modelled here after
  \<open>aquicksort\<close> of \<open>numpy/_core/src/npysort/quicksort.cpp\<close>: segments of more than 16
  positions are partitioned around the median of their first, middle and last element, and
  shorter segments are sorted by insertion. A date is a day number (days since 1970-01-01).
  Both \<open>transforms.py\<close> and \<open>analytics.py\<close> sort with this call.
\<close>

definition swap :: "nat \<Rightarrow> nat \<Rightarrow> 'a list \<Rightarrow> 'a list" where
  "swap i j xs = xs[i := xs ! j, j := xs ! i]"

text \<open>The three conditional swaps that put the median at \<open>pm\<close>.\<close>

definition median3 :: "int list \<Rightarrow> nat \<Rightarrow> nat \<Rightarrow> nat \<Rightarrow> nat list \<Rightarrow> nat list" where
  "median3 v pl pm pr ts =
     (let ts1 = (if v ! (ts ! pm) < v ! (ts ! pl) then swap pm pl ts else ts);
          ts2 = (if v ! (ts1 ! pr) < v ! (ts1 ! pm) then swap pr pm ts1 else ts1)
      in if v ! (ts2 ! pm) < v ! (ts2 ! pl) then swap pm pl ts2 else ts2)"

text \<open>
  \<^verbatim>\<open>do { ++pi; } while (less(v[*pi], vp));\<close> and
  \<^verbatim>\<open>do { --pj; } while (less(vp, v[*pj]));\<close>.
  The C code relies on the pivot and on the first element to stop the two scans; the model
  also stops them at the ends of the array.
\<close>

function scan_up :: "int list \<Rightarrow> int \<Rightarrow> nat list \<Rightarrow> nat \<Rightarrow> nat" where
  "scan_up v vp ts ip =
     (if Suc ip < length ts \<and> v ! (ts ! Suc ip) < vp then scan_up v vp ts (Suc ip) else Suc ip)"
  by pat_completeness auto
termination
  by (relation "measure (\<lambda>(v, vp, ts, ip). length ts - ip)") auto

declare scan_up.simps [simp del]

function scan_down :: "int list \<Rightarrow> int \<Rightarrow> nat list \<Rightarrow> nat \<Rightarrow> nat" where
  "scan_down v vp ts jp =
     (if 1 < jp \<and> vp < v ! (ts ! (jp - 1)) then scan_down v vp ts (jp - 1) else jp - 1)"
  by pat_completeness auto
termination
  by (relation "measure (\<lambda>(v, vp, ts, jp). jp)") auto

declare scan_down.simps [simp del]

text \<open>
  The partition loop: scan, stop when the scans meet, else swap and go on. It needs at most
  one round per position, which is the fuel given to it.
\<close>

fun partition_loop ::
  "nat \<Rightarrow> int list \<Rightarrow> int \<Rightarrow> nat list \<Rightarrow> nat \<Rightarrow> nat \<Rightarrow> (nat list \<times> nat) option" where
  "partition_loop 0 v vp ts ip jp = None"
| "partition_loop (Suc fuel) v vp ts ip jp =
     (let ip' = scan_up v vp ts ip; jp' = scan_down v vp ts jp
      in if ip' \<ge> jp' then Some (ts, ip')
         else partition_loop fuel v vp (swap ip' jp' ts) ip' jp')"

text \<open>The insertion sort of the segment from \<open>pl\<close> to \<open>pr\<close>.\<close>

function shift_up :: "int list \<Rightarrow> int \<Rightarrow> nat \<Rightarrow> nat list \<Rightarrow> nat \<Rightarrow> nat list \<times> nat" where
  "shift_up v vp pl ts jp =
     (if jp > pl \<and> vp < v ! (ts ! (jp - 1))
      then shift_up v vp pl (ts[jp := ts ! (jp - 1)]) (jp - 1)
      else (ts, jp))"
  by pat_completeness auto
termination
  by (relation "measure (\<lambda>(v, vp, pl, ts, jp). jp)") auto

declare shift_up.simps [simp del]

function insertion_sort :: "int list \<Rightarrow> nat \<Rightarrow> nat \<Rightarrow> nat list \<Rightarrow> nat \<Rightarrow> nat list" where
  "insertion_sort v pl pr ts ip =
     (if ip \<le> pr
      then (let vi = ts ! ip; (ts', jp) = shift_up v (v ! vi) pl ts ip
            in insertion_sort v pl pr (ts'[jp := vi]) (Suc ip))
      else ts)"
  by pat_completeness auto
termination
  by (relation "measure (\<lambda>(v, pl, pr, ts, ip). Suc pr - ip)") auto

declare insertion_sort.simps [simp del]

text \<open>\<open>npy_get_msb\<close>: the position of the highest bit that is set.\<close>

fun npy_get_msb :: "nat \<Rightarrow> nat" where
  "npy_get_msb n = (if n < 2 then 0 else Suc (npy_get_msb (n div 2)))"

declare npy_get_msb.simps [simp del]

text \<open>
  One partition of the segment from \<open>pl\<close> to \<open>pr\<close>: the median goes to \<open>pr - 1\<close>, the
  loop runs between \<open>pl\<close> and \<open>pr - 1\<close>, and the pivot is swapped to the place \<open>pi\<close> where
  the scans met.
\<close>

definition partition :: "int list \<Rightarrow> nat \<Rightarrow> nat \<Rightarrow> nat list \<Rightarrow> (nat list \<times> nat) option" where
  "partition v pl pr ts =
     (let pm = pl + (pr - pl) div 2;
          ts1 = median3 v pl pm pr ts;
          vp = v ! (ts1 ! pm);
          ts2 = swap pm (pr - 1) ts1
      in case partition_loop (length ts) v vp ts2 pl (pr - 1) of
           None \<Rightarrow> None
         | Some (ts3, ip) \<Rightarrow> Some (swap ip (pr - 1) ts3, ip))"

text \<open>
  The main loop. The inner \<open>while\<close> partitions the segment, pushes the larger part with the
  decremented depth and goes on with the smaller; a part taken from the stack is heap-sorted
  when its depth is negative. The parts do not overlap, so sorting one after the other gives
  the array the loop ends with. The heap sort is a parameter \<open>hs\<close>; the fuel bounds the
  nesting of partitions, and \<open>None\<close> stands for a run that needs more.
\<close>

fun quick_inner ::
  "nat \<Rightarrow> (int list \<Rightarrow> nat \<Rightarrow> nat \<Rightarrow> nat list \<Rightarrow> nat list) \<Rightarrow> int list \<Rightarrow> int
     \<Rightarrow> nat \<Rightarrow> nat \<Rightarrow> nat list \<Rightarrow> nat list option" where
  "quick_inner 0 hs v cdepth pl pr ts = None"
| "quick_inner (Suc fuel) hs v cdepth pl pr ts =
     (if pr - pl > 15 then
        (case partition v pl pr ts of
           None \<Rightarrow> None
         | Some (ts4, ip) \<Rightarrow>
             (case quick_inner fuel hs v (cdepth - 1)
                     (if ip - pl < pr - ip then pl else Suc ip)
                     (if ip - pl < pr - ip then ip - 1 else pr) ts4 of
                None \<Rightarrow> None
              | Some ts5 \<Rightarrow>
                  if cdepth - 1 < 0
                  then Some (hs v (if ip - pl < pr - ip then Suc ip else pl)
                                  (if ip - pl < pr - ip then pr else ip - 1) ts5)
                  else quick_inner fuel hs v (cdepth - 1)
                         (if ip - pl < pr - ip then Suc ip else pl)
                         (if ip - pl < pr - ip then pr else ip - 1) ts5))
      else Some (insertion_sort v pl pr ts (Suc pl)))"

definition aquicksort ::
  "(int list \<Rightarrow> nat \<Rightarrow> nat \<Rightarrow> nat list \<Rightarrow> nat list) \<Rightarrow> int list \<Rightarrow> nat list option" where
  "aquicksort hs v =
     (let num = length v
      in quick_inner (Suc num) hs v (2 * int (npy_get_msb num)) 0 (num - 1) [0..<num])"

text \<open>
  \<open>df.sort_values(column)\<close> for a date column \<open>key\<close>: the rows taken in the order of the
  sorted positions.
\<close>

definition sort_values ::
  "(int list \<Rightarrow> nat \<Rightarrow> nat \<Rightarrow> nat list \<Rightarrow> nat list) \<Rightarrow> ('a \<Rightarrow> int) \<Rightarrow> 'a list \<Rightarrow> 'a list option" where
  "sort_values hs key df = map_option (map (\<lambda>i. df ! i)) (aquicksort hs (map key df))"

text \<open>What the theorems below ask of the heap sort: it only rearranges the array.\<close>

definition rearranges :: "(int list \<Rightarrow> nat \<Rightarrow> nat \<Rightarrow> nat list \<Rightarrow> nat list) \<Rightarrow> bool" where
  "rearranges hs = (\<forall>v pl pr ts. mset (hs v pl pr ts) = mset ts)"

section \<open>analytics.py\<close>

text \<open>
  The columns of the feature frame that \<open>build_fact_latest_snapshot\<close> reads. A date is a
  day number (days since 1970-01-01).
\<close>

record feature_row =
  r_ticker :: string
  r_date :: int
  r_close :: cell
  r_vol_60 :: cell
  r_drawdown_pct :: cell

record snapshot =
  s_ticker :: string
  last_date :: int
  last_close :: cell
  pct_1d :: cell
  pct_1w :: cell
  pct_1m :: cell
  pct_ytd :: cell
  s_vol_60 :: cell
  max_dd_1y :: cell

text \<open>
  Float division. A zero divisor (an infinity or NaN with a runtime warning in numpy) is kept
  apart as an error value, so that a guard against it can be stated; NaN operands give NaN.
\<close>

fun fdiv :: "cell \<Rightarrow> cell \<Rightarrow> py_error + cell" where
  "fdiv a None = Inr None"
| "fdiv a (Some b) = (if b = 0 then Inl DivisionByZero else Inr (map_option (\<lambda>x. x / b) a))"

text \<open>
  The common tail of \<open>_pct_vs\<close> and \<open>_pct_vs_date\<close>:
  \<^verbatim>\<open>if ref["close"] == 0: return None\<close>, then
  \<^verbatim>\<open>return (last["close"] / ref["close"]) - 1.0\<close>.
  Python's \<open>None\<close> and a NaN result both end as an absent cell of the snapshot frame.
\<close>

definition pct_against :: "cell \<Rightarrow> cell \<Rightarrow> py_error + cell" where
  "pct_against last_c ref_c =
     (if ref_c = Some 0 then Inr None
      else (case fdiv last_c ref_c of
              Inl e \<Rightarrow> Inl e
            | Inr q \<Rightarrow> Inr (map_option (\<lambda>x. x - 1) q)))"

text \<open>\<open>_pct_vs(offset_days)\<close> over the date-sorted group \<open>g\<close>, whose last row is \<open>last\<close>.\<close>

definition pct_vs :: "feature_row list \<Rightarrow> nat \<Rightarrow> py_error + cell" where
  "pct_vs g offset_days =
     (if length g \<le> offset_days then Inr None
      else pct_against (r_close (last g)) (r_close (g ! (length g - 1 - offset_days))))"

text \<open>\<open>_pct_vs_date(target_date)\<close>.\<close>

definition pct_vs_date :: "feature_row list \<Rightarrow> int \<Rightarrow> py_error + cell" where
  "pct_vs_date g target_date =
     (let subset = filter (\<lambda>r. r_date r \<le> target_date) g
      in if subset = [] then Inr None
         else pct_against (r_close (last g)) (r_close (last subset)))"

text \<open>\<open>Series.min()\<close>: the least defined cell, NaN when there is none.\<close>

definition fmin :: "cell list \<Rightarrow> cell" where
  "fmin col = (let vs = List.map_filter id col in if vs = [] then None else Some (Min (set vs)))"

definition window_1y :: "feature_row list \<Rightarrow> feature_row list" where
  "window_1y g = filter (\<lambda>r. r_date r \<ge> r_date (last g) - 365) g"

text \<open>
  The body of the loop of \<open>build_fact_latest_snapshot\<close> for one instrument, from
  \<open>g = group.sort_values("date")\<close> on. \<open>g.iloc[-1]\<close> raises on an empty group. The
  calendar is a parameter: \<open>jan1 d\<close> is the day number of 1 January of the year of day \<open>d\<close>
  (\<^verbatim>\<open>pd.Timestamp(year=last["date"].year, month=1, day=1)\<close>). The outer \<open>None\<close> is a
  sort that ran out of fuel.
\<close>

definition snapshot_of :: "(int \<Rightarrow> int) \<Rightarrow> string \<Rightarrow> feature_row list \<Rightarrow> py_error + snapshot" where
  "snapshot_of jan1 ticker g =
     (if g = [] then Inl IndexError
      else (let ytd_start = jan1 (r_date (last g));
                w = window_1y g;
                max_dd = (if w \<noteq> [] then fmin (map r_drawdown_pct w) else None)
            in and_then (pct_vs_date g ytd_start) (\<lambda>ytd.
               and_then (pct_vs g 1) (\<lambda>p1.
               and_then (pct_vs g 5) (\<lambda>p5.
               and_then (pct_vs g 21) (\<lambda>p21.
                 Inr \<lparr> s_ticker = ticker, last_date = r_date (last g),
                       last_close = r_close (last g),
                       pct_1d = p1, pct_1w = p5, pct_1m = p21, pct_ytd = ytd,
                       s_vol_60 = r_vol_60 (last g), max_dd_1y = max_dd \<rparr>))))))"

definition snapshot_row ::
  "(int list \<Rightarrow> nat \<Rightarrow> nat \<Rightarrow> nat list \<Rightarrow> nat list) \<Rightarrow> (int \<Rightarrow> int) \<Rightarrow> string
     \<Rightarrow> feature_row list \<Rightarrow> (py_error + snapshot) option" where
  "snapshot_row hs jan1 ticker grp =
     map_option (snapshot_of jan1 ticker) (sort_values hs r_date grp)"

text \<open>Running the loop body over a list of groups, stopping at the first that raises.\<close>

fun collect :: "('a \<Rightarrow> (py_error + 'b) option) \<Rightarrow> 'a list \<Rightarrow> (py_error + 'b list) option" where
  "collect f [] = Some (Inr [])"
| "collect f (x # xs) =
     (case f x of
        None \<Rightarrow> None
      | Some (Inl e) \<Rightarrow> Some (Inl e)
      | Some (Inr y) \<Rightarrow>
          (case collect f xs of
             None \<Rightarrow> None
           | Some (Inl e) \<Rightarrow> Some (Inl e)
           | Some (Inr ys) \<Rightarrow> Some (Inr (y # ys))))"

text \<open>
  \<open>prices.groupby("ticker")\<close> visits the tickers in sorted order, each with its rows. A
  frame without rows has no group: \<open>snapshots\<close> stays empty, \<open>pd.DataFrame([])\<close> has no
  column "ticker" and the final \<open>sort_values("ticker")\<close> raises \<open>KeyError\<close>. Otherwise the
  final sort keeps the order of the groups.
\<close>

definition build_fact_latest_snapshot ::
  "(int list \<Rightarrow> nat \<Rightarrow> nat \<Rightarrow> nat list \<Rightarrow> nat list) \<Rightarrow> (int \<Rightarrow> int) \<Rightarrow> feature_row list
     \<Rightarrow> (py_error + snapshot list) option" where
  "build_fact_latest_snapshot hs jan1 prices =
     (if prices = [] then Some (Inl (KeyError ''ticker''))
      else collect (\<lambda>t. snapshot_row hs jan1 t (filter (\<lambda>r. r_ticker r = t) prices))
             (sort (remdups (map r_ticker prices))))"

section \<open>settings.py\<close>

text \<open>
  \<open>Settings\<close>: the fields the client reads. The class declares types and defaults and no
  validator.
\<close>

record settings =
  alpha_vantage_api_key :: string
  alpha_vantage_timeout :: real
  alpha_vantage_min_interval_seconds :: real
  max_retries :: int
  backoff_seconds :: real



section \<open>etl/alphavantage.py\<close>



section \<open>alphavantage_client.py\<close>

subsection \<open>The world outside the client\<close>

text \<open>
  The client reads a monotonic clock, sleeps and sends HTTP requests. The world records the
  clock, the number of requests the upstream has received, and what the client did, in
  order: a \<open>RateLimiter.wait\<close> with the time it slept (0 when it did not sleep), a GET
  request that reached the upstream with its query, a retry of the session's adapter with
  the time it slept before sending again (0 when it did not sleep), and a back-off sleep of
  \<open>_request\<close>. Sleeping advances the clock by the time asked for; the time an HTTP call takes
  and the timeout handed to it are not modelled, and the upstream always answers.
\<close>

type_synonym query = "(string \<times> string) list"

datatype event = Wait real | Get query | Resend real | Backoff real

record world =
  clock :: real
  calls :: nat
  trace :: "event list"

text \<open>
  An answer of the upstream: its status, its \<open>Retry-After\<close> header as the number of seconds
  \<open>Retry.get_retry_after\<close> reads from it (never negative; \<open>None\<close> without the header), its
  text and the JSON object the text parses to (\<open>None\<close> when \<open>response.json()\<close> fails).
\<close>

record response =
  status_code :: nat
  retry_after :: "real option"
  text_body :: string
  json_body :: "payload option"

text \<open>The upstream: its answer to the \<open>n\<close>-th request (counted from 0) with a given query.\<close>

type_synonym upstream = "nat \<Rightarrow> query \<Rightarrow> response"

subsection \<open>\<open>RateLimiter\<close>\<close>

record rate_limiter =
  min_interval_seconds :: real
  last_call :: real

definition RateLimiter :: "real \<Rightarrow> rate_limiter" where
  "RateLimiter m = \<lparr> min_interval_seconds = m, last_call = 0 \<rparr>"

text \<open>
  \<open>RateLimiter.wait\<close>. \<open>time.sleep\<close> is called only with a positive time, so it cannot
  raise here.
\<close>

definition wait :: "rate_limiter \<Rightarrow> world \<Rightarrow> rate_limiter \<times> world" where
  "wait rl w =
     (let now = clock w;
          elapsed = now - last_call rl;
          remaining = min_interval_seconds rl - elapsed;
          w' = (if remaining > 0
                then w\<lparr> clock := clock w + remaining, trace := trace w @ [Wait remaining] \<rparr>
                else w\<lparr> trace := trace w @ [Wait 0] \<rparr>)
      in (rl\<lparr> last_call := clock w' \<rparr>, w'))"

subsection \<open>The session and its \<open>Retry\<close> adapter\<close>

text \<open>
  \<open>__post_init__\<close> mounts an \<open>HTTPAdapter\<close> with
  \<^verbatim>\<open>Retry(total=max_retries, backoff_factor=1.2, status_forcelist=[429, 500, 502, 503, 504],
  allowed_methods=["GET"], raise_on_status=False)\<close>
  on the session, so \<open>session.get\<close> runs urllib3's \<open>urlopen\<close> with that \<open>Retry\<close>. Of the
  \<open>Retry\<close> object the model keeps the retries that are left and the length of its history.
\<close>

record retry =
  retry_total :: int
  retry_history :: nat

definition Retry :: "int \<Rightarrow> retry" where
  "Retry t = \<lparr> retry_total = t, retry_history = 0 \<rparr>"

definition status_forcelist :: "nat list" where
  "status_forcelist = [429, 500, 502, 503, 504]"

text \<open>
  \<open>Retry.is_retry\<close> for a GET: the status is in the force list, or retries are left and the
  answer has a \<open>Retry-After\<close> header with one of the statuses 413, 429, 503.
\<close>

definition is_retry :: "retry \<Rightarrow> response \<Rightarrow> bool" where
  "is_retry r resp =
     (status_code resp \<in> set status_forcelist
      \<or> (retry_total r \<noteq> 0 \<and> retry_after resp \<noteq> None \<and> status_code resp \<in> {413, 429, 503}))"

text \<open>
  \<open>Retry.increment\<close>: one retry less and one entry more in the history; \<open>None\<close> is
  \<open>MaxRetryError\<close>, raised when the count has fallen below 0.
\<close>

definition increment :: "retry \<Rightarrow> retry option" where
  "increment r =
     (let r' = \<lparr> retry_total = retry_total r - 1, retry_history = Suc (retry_history r) \<rparr>
      in if retry_total r' < 0 then None else Some r')"

text \<open>
  \<open>Retry.get_backoff_time\<close> with \<open>backoff_factor = 1.2\<close> and the default maximum of 120
  seconds: nothing after the first answer, then \<open>1.2 * 2 ^ (n - 1)\<close> after \<open>n\<close> answers in
  a row.
\<close>

definition get_backoff_time :: "retry \<Rightarrow> real" where
  "get_backoff_time r =
     (if retry_history r \<le> 1 then 0
      else max 0 (min 120 (12 / 10 * 2 ^ (retry_history r - 1))))"

text \<open>
  \<open>Retry.sleep\<close>: the time of the \<open>Retry-After\<close> header when the answer has one that is
  not 0, the back-off time otherwise; no sleep for a time of 0.
\<close>

definition retry_sleep :: "retry \<Rightarrow> response \<Rightarrow> world \<Rightarrow> world" where
  "retry_sleep r resp w =
     (let d = (case retry_after resp of
                 Some s \<Rightarrow> if 0 < s then s else get_backoff_time r
               | None \<Rightarrow> get_backoff_time r)
      in w\<lparr> clock := clock w + d, trace := trace w @ [Resend d] \<rparr>)"

text \<open>
  \<open>HTTPConnectionPool.urlopen\<close>, as far as the retries on a status go: the request is sent;
  an answer that \<open>is_retry\<close> accepts is dropped and the request sent again after
  \<open>Retry.sleep\<close>, unless the retries are used up: then, \<open>raise_on_status\<close> being off, the
  answer is returned as it is.
\<close>

function urlopen :: "upstream \<Rightarrow> query \<Rightarrow> retry \<Rightarrow> world \<Rightarrow> response \<times> world" where
  "urlopen up q r w =
     (let resp = up (calls w) q;
          w1 = w\<lparr> calls := Suc (calls w), trace := trace w @ [Get q] \<rparr>
      in if is_retry r resp then
           (case increment r of
              None \<Rightarrow> (resp, w1)
            | Some r' \<Rightarrow> urlopen up q r' (retry_sleep r' resp w1))
         else (resp, w1))"
  by pat_completeness auto

termination
  by (relation "measure (\<lambda>(up, q, r, w). nat (retry_total r))")
     (auto simp: increment_def Let_def split: if_splits)

declare urlopen.simps [simp del]

subsection \<open>\<open>AlphaVantageClient\<close>\<close>

text \<open>The client: its settings, its limiter and the \<open>Retry\<close> its session is mounted with.\<close>

record client =
  cfg :: settings
  limiter :: rate_limiter
  session :: retry

text \<open>\<open>__post_init__\<close>: a fresh limiter and session; nothing is checked.\<close>

definition post_init :: "settings \<Rightarrow> client" where
  "post_init s = \<lparr> cfg = s, limiter = RateLimiter (alpha_vantage_min_interval_seconds s),
                   session = Retry (max_retries s) \<rparr>"

text \<open>\<open>time.sleep\<close> raises \<open>ValueError\<close> for a negative time.\<close>

definition backoff_sleep :: "real \<Rightarrow> world \<Rightarrow> py_error + world" where
  "backoff_sleep d w =
     (if d < 0 then Inl (ValueError ''sleep length must be non-negative'')
      else Inr (w\<lparr> clock := clock w + d, trace := trace w @ [Backoff d] \<rparr>))"

text \<open>\<open>self.session.get(BASE_URL, params=query, timeout=...)\<close>.\<close>

definition session_get :: "upstream \<Rightarrow> client \<Rightarrow> query \<Rightarrow> world \<Rightarrow> response \<times> world" where
  "session_get up c q w = urlopen up q (session c) w"

text \<open>
  The loop of \<open>_request\<close> over the attempt numbers that are left, and the statement after
  the loop when none is left.
\<close>

fun request_loop ::
  "upstream \<Rightarrow> query \<Rightarrow> int list \<Rightarrow> client \<Rightarrow> world \<Rightarrow> (py_error + payload) \<times> client \<times> world" where
  "request_loop up q [] c w =
     (Inl (AlphaVantageError (JString ''Failed to fetch data after retries.'')), c, w)"
| "request_loop up q (attempt # rest) c w =
     (let (rl, w1) = wait (limiter c) w;
          c1 = c\<lparr> limiter := rl \<rparr>;
          (resp, w2) = session_get up c1 q w1
      in case json_body resp of
           None \<Rightarrow>
             (Inl (AlphaVantageError (JString (''Invalid JSON response: '' @ text_body resp))), c1, w2)
         | Some body \<Rightarrow>
             if has_key ''Information'' body then
               (Inl (AlphaVantageError (get_or body ''Information'' (JString ''''))), c1, w2)
             else if status_code resp = 429 \<or> has_key ''Note'' body then
               (if attempt = max_retries (cfg c) then
                  (Inl (AlphaVantageError (get_or body ''Note'' (JString ''Rate limited''))), c1, w2)
                else (case backoff_sleep (backoff_seconds (cfg c)) w2 of
                        Inl e \<Rightarrow> (Inl e, c1, w2)
                      | Inr w3 \<Rightarrow> request_loop up q rest c1 w3))
             else if has_key ''Error Message'' body then
               (Inl (AlphaVantageError (get_or body ''Error Message'' (JString ''''))), c1, w2)
             else (Inr body, c1, w2))"

text \<open>
  \<open>_request\<close>: the API key joins the query, and the attempts are numbered
  \<open>range(1, max_retries + 1)\<close>.
\<close>

definition request :: "upstream \<Rightarrow> query \<Rightarrow> client \<Rightarrow> world \<Rightarrow> (py_error + payload) \<times> client \<times> world" where
  "request up params c w =
     request_loop up (dict_set ''apikey'' (alpha_vantage_api_key (cfg c)) params)
       [1..max_retries (cfg c)] c w"

subsection \<open>The equity ladder (\<open>fetch_equity_daily\<close>)\<close>

definition attempts :: "string \<Rightarrow> query list" where
  "attempts symbol =
     [[(''function'', ''TIME_SERIES_DAILY_ADJUSTED''), (''symbol'', symbol),
       (''outputsize'', ''full''), (''source_function'', ''TIME_SERIES_DAILY_ADJUSTED'')],
      [(''function'', ''TIME_SERIES_DAILY''), (''symbol'', symbol),
       (''outputsize'', ''full''), (''source_function'', ''TIME_SERIES_DAILY'')],
      [(''function'', ''TIME_SERIES_DAILY''), (''symbol'', symbol),
       (''outputsize'', ''compact''), (''source_function'', ''TIME_SERIES_DAILY'')]]"

text \<open>
  The loop over the attempts with its \<open>last_error\<close>. Only \<open>AlphaVantageError\<close> is caught;
  any other exception leaves the function at once.
\<close>

fun ladder ::
  "upstream \<Rightarrow> string \<Rightarrow> query list \<Rightarrow> py_error option \<Rightarrow> client \<Rightarrow> world
     \<Rightarrow> (py_error + payload) \<times> client \<times> world" where
  "ladder up symbol [] last_error c w =
     (case last_error of
        Some e \<Rightarrow> (Inl e, c, w)
      | None \<Rightarrow> (Inl (AlphaVantageError (JString (''Failed to fetch '' @ symbol))), c, w))"
| "ladder up symbol (params # rest) last_error c w =
     (case request up (filter (\<lambda>(k, v). k \<noteq> ''source_function'') params) c w of
        (Inr body, c', w') \<Rightarrow>
          (Inr (dict_set ''symbol'' (JString symbol)
                 (dict_set ''source_function''
                    (JString (get_or params ''source_function'' '''')) body)), c', w')
      | (Inl (AlphaVantageError m), c', w') \<Rightarrow>
          ladder up symbol rest (Some (AlphaVantageError m)) c' w'
      | (Inl e, c', w') \<Rightarrow> (Inl e, c', w'))"

definition fetch_equity_daily ::
  "upstream \<Rightarrow> string \<Rightarrow> client \<Rightarrow> world \<Rightarrow> (py_error + payload) \<times> client \<times> world" where
  "fetch_equity_daily up symbol c w = ladder up symbol (attempts symbol) None c w"

subsection \<open>How the session and \<open>_request\<close> read an answer\<close>

text \<open>
  The session hands an answer on to \<open>_request\<close> at once, whatever retries are left, when
  \<open>Retry.is_retry\<close> turns it down: its status is not in the force list, and it is not a 413
  with a \<open>Retry-After\<close> header.
\<close>

definition delivered :: "response \<Rightarrow> bool" where
  "delivered r =
     (status_code r \<notin> set status_forcelist \<and> \<not> (retry_after r \<noteq> None \<and> status_code r = 413))"

text \<open>
  Such an answer is throttled by its body when \<open>_request\<close> reaches its back-off branch
  with it: the body is a JSON object without the key "Information" and with the key "Note".
  It is a success when \<open>_request\<close> returns its body.
\<close>

definition is_throttled :: "response \<Rightarrow> bool" where
  "is_throttled r =
     (delivered r
      \<and> (case json_body r of
            None \<Rightarrow> False
          | Some body \<Rightarrow> \<not> has_key ''Information'' body \<and> has_key ''Note'' body))"

definition is_success :: "response \<Rightarrow> bool" where
  "is_success r =
     (delivered r
      \<and> (case json_body r of
            None \<Rightarrow> False
          | Some body \<Rightarrow> \<not> has_key ''Information'' body \<and> status_code r \<noteq> 429
                         \<and> \<not> has_key ''Note'' body \<and> \<not> has_key ''Error Message'' body))"

text \<open>
  An answer is refused when the session hands it on at once and \<open>_request\<close> raises
  \<open>AlphaVantageError\<close> for it without a retry: the body is not JSON, or it has the key
  "Information", or it is not throttled and has the key "Error Message".
\<close>

definition is_refused :: "response \<Rightarrow> bool" where
  "is_refused r =
     (delivered r
      \<and> (case json_body r of
            None \<Rightarrow> True
          | Some body \<Rightarrow> has_key ''Information'' body
                         \<or> (status_code r \<noteq> 429 \<and> \<not> has_key ''Note'' body
                             \<and> has_key ''Error Message'' body)))"

text \<open>
  An answer is rate limited by its status when the status is 429 and the body is a JSON
  object without the key "Information": \<open>_request\<close> reaches its back-off branch with it, if
  the session hands it on.
\<close>

definition is_rate_limited :: "response \<Rightarrow> bool" where
  "is_rate_limited r =
     (status_code r = 429
      \<and> (case json_body r of None \<Rightarrow> False | Some body \<Rightarrow> \<not> has_key ''Information'' body))"

text \<open>The trace without the times the limiter and the adapter slept.\<close>

fun erase :: "event \<Rightarrow> event" where
  "erase (Wait d) = Wait 0"
| "erase (Resend d) = Resend 0"
| "erase e = e"

text \<open>
  What one turn of the loop of \<open>_request\<close> leaves in the trace, times apart, when the
  adapter sends the request again \<open>k\<close> times: one \<open>RateLimiter.wait\<close> and \<open>k + 1\<close>
  requests.
\<close>

definition attempt_trace :: "query \<Rightarrow> nat \<Rightarrow> event list" where
  "attempt_trace q k = [Wait 0, Get q] @ concat (replicate k [Resend 0, Get q])"

text \<open>The parameters \<open>fetch_equity_daily\<close> hands to \<open>_request\<close> for the \<open>i\<close>-th attempt.\<close>

definition tier_params :: "string \<Rightarrow> nat \<Rightarrow> query" where
  "tier_params symbol i = filter (\<lambda>(k, v). k \<noteq> ''source_function'') (attempts symbol ! i)"

text \<open>The two tags \<open>fetch_equity_daily\<close> adds to a body.\<close>

definition tagged :: "string \<Rightarrow> string \<Rightarrow> payload \<Rightarrow> payload" where
  "tagged symbol source_function body =
     dict_set ''symbol'' (JString symbol)
       (dict_set ''source_function'' (JString source_function) body)"

subsection \<open>Simulated upstreams\<close>

text \<open>
  The default settings with the key "demo", a world whose clock reads 1000 seconds, and the
  query of \<open>fetch_fx_daily("EURUSD")\<close>. The text of a JSON body is written without its
  quotation marks.
\<close>

definition demo_settings :: settings where
  "demo_settings = \<lparr> alpha_vantage_api_key = ''demo'', alpha_vantage_timeout = 10,
                      alpha_vantage_min_interval_seconds = 15, max_retries = 3,
                      backoff_seconds = 20 \<rparr>"

definition world0 :: world where
  "world0 = \<lparr> clock = 1000, calls = 0, trace = [] \<rparr>"

definition fx_params :: query where
  "fx_params = [(''function'', ''FX_DAILY''), (''from_symbol'', ''EUR''),
                (''to_symbol'', ''USD''), (''outputsize'', ''full'')]"

definition ok_response :: response where
  "ok_response = \<lparr> status_code = 200, retry_after = None, text_body = ''{Time Series: {}}'',
                    json_body = Some [(''Time Series'', JObject [])] \<rparr>"

text \<open>HTTP 429 with an empty JSON object on the first two calls, then a good body.\<close>

definition throttled_twice :: upstream where
  "throttled_twice n q =
     (if n < 2 then \<lparr> status_code = 429, retry_after = None, text_body = ''{}'', json_body = Some [] \<rparr>
      else ok_response)"

text \<open>HTTP 429 with an empty JSON object on every call.\<close>

definition always_429 :: upstream where
  "always_429 n q = \<lparr> status_code = 429, retry_after = None, text_body = ''{}'', json_body = Some [] \<rparr>"

text \<open>A body with the key "Note" and status 200 on the first two calls, then a good body.\<close>

definition note_twice :: upstream where
  "note_twice n q =
     (if n < 2 then \<lparr> status_code = 200, retry_after = None, text_body = ''{Note: slow down}'',
                       json_body = Some [(''Note'', JString ''slow down'')] \<rparr>
      else ok_response)"

text \<open>A body with the key "Note" and status 200 on every call.\<close>

definition always_note :: upstream where
  "always_note n q = \<lparr> status_code = 200, retry_after = None, text_body = ''{Note: slow down}'',
                        json_body = Some [(''Note'', JString ''slow down'')] \<rparr>"

definition equity_ok :: response where
  "equity_ok = \<lparr> status_code = 200, retry_after = None, text_body = ''{Time Series (Daily): {}}'',
                  json_body = Some [(''Time Series (Daily)'', JObject [])] \<rparr>"

definition premium_notice :: response where
  "premium_notice = \<lparr> status_code = 200, retry_after = None, text_body = ''{Information: premium endpoint}'',
                       json_body = Some [(''Information'', JString ''premium endpoint'')] \<rparr>"

text \<open>An upstream that refuses the adjusted endpoint only.\<close>

definition adjusted_is_premium :: upstream where
  "adjusted_is_premium n q =
     (if map_of q ''function'' = Some ''TIME_SERIES_DAILY_ADJUSTED'' then premium_notice
      else equity_ok)"

text \<open>An upstream that serves compact history only.\<close>

definition compact_only :: upstream where
  "compact_only n q =
     (if map_of q ''outputsize'' = Some ''compact'' then equity_ok else premium_notice)"

text \<open>An upstream that refuses every call, naming the function and the size asked for.\<close>

definition refuse_all :: upstream where
  "refuse_all n q =
     \<lparr> status_code = 200, retry_after = None, text_body = ''{Error Message: ...}'',
       json_body = Some [(''Error Message'',
          JString (''no '' @ get_or q ''function'' '''' @ '' '' @ get_or q ''outputsize'' ''''))] \<rparr>"


section \<open>transforms.py\<close>

subsection \<open>\<open>_finalize_prices\<close>\<close>

record price_row =
  p_date :: int
  p_ticker :: string
  p_open :: cell
  p_high :: cell
  p_low :: cell
  p_close :: cell
  p_adj_close :: cell
  p_volume :: cell
  p_currency :: string
  p_asset_class :: string
  p_source :: json

text \<open>
  \<open>drop_duplicates(subset=..., keep="last")\<close>: a row stays unless a later row has the same
  key.
\<close>

fun drop_duplicates_last :: "('a \<Rightarrow> 'k) \<Rightarrow> 'a list \<Rightarrow> 'a list" where
  "drop_duplicates_last key [] = []"
| "drop_duplicates_last key (x # xs) =
     (if key x \<in> key ` set xs then drop_duplicates_last key xs
      else x # drop_duplicates_last key xs)"

text \<open>
  \<open>_finalize_prices\<close>. A frame without rows has no column "date" and \<open>sort_values\<close>
  raises \<open>KeyError\<close>. \<open>reset_index(drop=True)\<close> numbers the rows left from 0: the position
  in the list. The outer \<open>None\<close> is a sort that ran out of fuel.
\<close>

definition finalize_prices ::
  "(int list \<Rightarrow> nat \<Rightarrow> nat \<Rightarrow> nat list \<Rightarrow> nat list) \<Rightarrow> price_row list
     \<Rightarrow> (py_error + price_row list) option" where
  "finalize_prices hs df =
     (if df = [] then Some (Inl (KeyError ''date''))
      else map_option (\<lambda>sorted. Inr (drop_duplicates_last (\<lambda>r. (p_date r, p_ticker r)) sorted))
             (sort_values hs p_date df))"

subsection \<open>\<open>parse_fx\<close>\<close>

record ticker =
  t_symbol :: string
  t_name :: "string option"
  t_asset_class :: string
  t_group :: string
  t_currency :: string
  t_market :: "string option"

text \<open>\<open>d[k]\<close> on a JSON value, and \<open>d.items()\<close>.\<close>

fun subscript :: "json \<Rightarrow> string \<Rightarrow> py_error + json" where
  "subscript (JObject d) k = (case map_of d k of None \<Rightarrow> Inl (KeyError k) | Some v \<Rightarrow> Inr v)"
| "subscript (JString s) k = Inl (TypeError ''string indices must be integers'')"

fun items :: "json \<Rightarrow> py_error + (string \<times> json) list" where
  "items (JObject d) = Inr d"
| "items (JString s) = Inl (AttributeError ''items'')"

text \<open>
  Two library functions are parameters, each with the exception it raises as a value.
  \<open>to_date s\<close> is the day of \<open>pd.to_datetime(s).normalize()\<close>; two strings with the same
  day and different times of day have the same value; a string that is no date raises
  \<open>ValueError\<close>, and the empty string \<open>AttributeError\<close>, its \<open>NaT\<close> having no
  \<open>normalize\<close>. \<open>pyfloat j\<close> is \<open>float(j)\<close>.
\<close>

text \<open>The row \<open>parse_fx\<close> builds for one entry of the series, field by field.\<close>

definition fx_row ::
  "(string \<Rightarrow> py_error + int) \<Rightarrow> (json \<Rightarrow> py_error + cell) \<Rightarrow> payload \<Rightarrow> ticker
     \<Rightarrow> string \<times> json \<Rightarrow> py_error + price_row" where
  "fx_row to_date pyfloat payload t entry =
     (case entry of (date_str, metrics) \<Rightarrow>
        and_then (to_date date_str) (\<lambda>d.
        and_then (and_then (subscript metrics ''1. open'') pyfloat) (\<lambda>op.
        and_then (and_then (subscript metrics ''2. high'') pyfloat) (\<lambda>hi.
        and_then (and_then (subscript metrics ''3. low'') pyfloat) (\<lambda>lo.
        and_then (and_then (subscript metrics ''4. close'') pyfloat) (\<lambda>cl.
        and_then (and_then (subscript metrics ''4. close'') pyfloat) (\<lambda>adj.
          Inr \<lparr> p_date = d, p_ticker = t_symbol t, p_open = op, p_high = hi, p_low = lo,
                p_close = cl, p_adj_close = adj, p_volume = None,
                p_currency = t_currency t, p_asset_class = t_asset_class t,
                p_source = get_or payload ''source_function'' (JString ''FX_DAILY'') \<rparr>)))))))"

text \<open>The loop that fills \<open>rows\<close>, stopping at the first entry that raises.\<close>

fun build_rows :: "('a \<Rightarrow> py_error + 'b) \<Rightarrow> 'a list \<Rightarrow> py_error + 'b list" where
  "build_rows f [] = Inr []"
| "build_rows f (x # xs) =
     and_then (f x) (\<lambda>y. and_then (build_rows f xs) (\<lambda>ys. Inr (y # ys)))"

definition parse_fx ::
  "(string \<Rightarrow> py_error + int) \<Rightarrow> (json \<Rightarrow> py_error + cell)
     \<Rightarrow> (int list \<Rightarrow> nat \<Rightarrow> nat \<Rightarrow> nat list \<Rightarrow> nat list)
     \<Rightarrow> payload \<Rightarrow> ticker \<Rightarrow> (py_error + price_row list) option" where
  "parse_fx to_date pyfloat hs payload t =
     (case and_then (subscript (JObject payload) ''Time Series FX (Daily)'') (\<lambda>series.
           and_then (items series) (build_rows (fx_row to_date pyfloat payload t))) of
        Inl e \<Rightarrow> Some (Inl e)
      | Inr rows \<Rightarrow> finalize_prices hs rows)"

subsection \<open>A refreshed FX payload\<close>

text \<open>
  Eighteen entries, newest first as the provider sends them. The fourth and the fifth entry
  are the same day, 25 January 2024: the fourth carries a time of day (a refresh during the
  day, close 1.0830), the fifth is the plain date (close 1.0840). The tables give
  \<open>pd.to_datetime(s).normalize()\<close> as a day number and \<open>float(s)\<close> for the strings of
  this payload; a string outside the tables is answered as the library answers one it
  cannot read.
\<close>

definition eurusd :: ticker where
  "eurusd = \<lparr> t_symbol = ''EURUSD'', t_name = None, t_asset_class = ''FX'', t_group = ''fx'',
               t_currency = ''USD'', t_market = None \<rparr>"

definition refreshed_payload :: payload where
  "refreshed_payload =
     [(''Time Series FX (Daily)'', JObject
        [(''2024-01-28'', JObject [(''1. open'', JString ''1.0800''), (''2. high'', JString ''1.0800''),
            (''3. low'', JString ''1.0800''), (''4. close'', JString ''1.0800'')]),
         (''2024-01-27'', JObject [(''1. open'', JString ''1.0810''), (''2. high'', JString ''1.0810''),
            (''3. low'', JString ''1.0810''), (''4. close'', JString ''1.0810'')]),
         (''2024-01-26'', JObject [(''1. open'', JString ''1.0820''), (''2. high'', JString ''1.0820''),
            (''3. low'', JString ''1.0820''), (''4. close'', JString ''1.0820'')]),
         (''2024-01-25 16:00:00'', JObject [(''1. open'', JString ''1.0830''), (''2. high'', JString ''1.0830''),
            (''3. low'', JString ''1.0830''), (''4. close'', JString ''1.0830'')]),
         (''2024-01-25'', JObject [(''1. open'', JString ''1.0840''), (''2. high'', JString ''1.0840''),
            (''3. low'', JString ''1.0840''), (''4. close'', JString ''1.0840'')]),
         (''2024-01-24'', JObject [(''1. open'', JString ''1.0850''), (''2. high'', JString ''1.0850''),
            (''3. low'', JString ''1.0850''), (''4. close'', JString ''1.0850'')]),
         (''2024-01-23'', JObject [(''1. open'', JString ''1.0860''), (''2. high'', JString ''1.0860''),
            (''3. low'', JString ''1.0860''), (''4. close'', JString ''1.0860'')]),
         (''2024-01-22'', JObject [(''1. open'', JString ''1.0870''), (''2. high'', JString ''1.0870''),
            (''3. low'', JString ''1.0870''), (''4. close'', JString ''1.0870'')]),
         (''2024-01-21'', JObject [(''1. open'', JString ''1.0880''), (''2. high'', JString ''1.0880''),
            (''3. low'', JString ''1.0880''), (''4. close'', JString ''1.0880'')]),
         (''2024-01-20'', JObject [(''1. open'', JString ''1.0890''), (''2. high'', JString ''1.0890''),
            (''3. low'', JString ''1.0890''), (''4. close'', JString ''1.0890'')]),
         (''2024-01-19'', JObject [(''1. open'', JString ''1.0900''), (''2. high'', JString ''1.0900''),
            (''3. low'', JString ''1.0900''), (''4. close'', JString ''1.0900'')]),
         (''2024-01-18'', JObject [(''1. open'', JString ''1.0910''), (''2. high'', JString ''1.0910''),
            (''3. low'', JString ''1.0910''), (''4. close'', JString ''1.0910'')]),
         (''2024-01-17'', JObject [(''1. open'', JString ''1.0920''), (''2. high'', JString ''1.0920''),
            (''3. low'', JString ''1.0920''), (''4. close'', JString ''1.0920'')]),
         (''2024-01-16'', JObject [(''1. open'', JString ''1.0930''), (''2. high'', JString ''1.0930''),
            (''3. low'', JString ''1.0930''), (''4. close'', JString ''1.0930'')]),
         (''2024-01-15'', JObject [(''1. open'', JString ''1.0940''), (''2. high'', JString ''1.0940''),
            (''3. low'', JString ''1.0940''), (''4. close'', JString ''1.0940'')]),
         (''2024-01-14'', JObject [(''1. open'', JString ''1.0950''), (''2. high'', JString ''1.0950''),
            (''3. low'', JString ''1.0950''), (''4. close'', JString ''1.0950'')]),
         (''2024-01-13'', JObject [(''1. open'', JString ''1.0960''), (''2. high'', JString ''1.0960''),
            (''3. low'', JString ''1.0960''), (''4. close'', JString ''1.0960'')]),
         (''2024-01-12'', JObject [(''1. open'', JString ''1.0970''), (''2. high'', JString ''1.0970''),
            (''3. low'', JString ''1.0970''), (''4. close'', JString ''1.0970'')])]),
      (''source_function'', JString ''FX_DAILY''), (''symbol'', JString ''EURUSD'')]"

definition demo_to_date :: "string \<Rightarrow> py_error + int" where
  "demo_to_date s = (case map_of
     [(''2024-01-28'', 19750),
      (''2024-01-27'', 19749),
      (''2024-01-26'', 19748),
      (''2024-01-25 16:00:00'', 19747),
      (''2024-01-25'', 19747),
      (''2024-01-24'', 19746),
      (''2024-01-23'', 19745),
      (''2024-01-22'', 19744),
      (''2024-01-21'', 19743),
      (''2024-01-20'', 19742),
      (''2024-01-19'', 19741),
      (''2024-01-18'', 19740),
      (''2024-01-17'', 19739),
      (''2024-01-16'', 19738),
      (''2024-01-15'', 19737),
      (''2024-01-14'', 19736),
      (''2024-01-13'', 19735),
      (''2024-01-12'', 19734)] s of
        Some d \<Rightarrow> Inr d
      | None \<Rightarrow> if s = [] then Inl (AttributeError ''NaTType object has no attribute normalize'')
                else Inl (ValueError ''Unknown datetime string format''))"

definition demo_float :: "json \<Rightarrow> py_error + cell" where
  "demo_float j = (case map_of
     [(JString ''1.0800'', Some (10800 / 10000)),
      (JString ''1.0810'', Some (10810 / 10000)),
      (JString ''1.0820'', Some (10820 / 10000)),
      (JString ''1.0830'', Some (10830 / 10000)),
      (JString ''1.0840'', Some (10840 / 10000)),
      (JString ''1.0850'', Some (10850 / 10000)),
      (JString ''1.0860'', Some (10860 / 10000)),
      (JString ''1.0870'', Some (10870 / 10000)),
      (JString ''1.0880'', Some (10880 / 10000)),
      (JString ''1.0890'', Some (10890 / 10000)),
      (JString ''1.0900'', Some (10900 / 10000)),
      (JString ''1.0910'', Some (10910 / 10000)),
      (JString ''1.0920'', Some (10920 / 10000)),
      (JString ''1.0930'', Some (10930 / 10000)),
      (JString ''1.0940'', Some (10940 / 10000)),
      (JString ''1.0950'', Some (10950 / 10000)),
      (JString ''1.0960'', Some (10960 / 10000)),
      (JString ''1.0970'', Some (10970 / 10000))] j of
        Some c \<Rightarrow> Inr c
      | None \<Rightarrow> Inl (ValueError ''could not convert string to float''))"

section \<open>Properties of the feature engine\<close>

lemma cummax_acc_length: "length (cummax_acc m xs) = length xs"
  by (induction m xs rule: cummax_acc.induct) auto

lemma Max_insert_max:
  fixes m :: real
  assumes "finite A"
  shows "Max (insert (max m x) A) = Max (insert m (insert x A))"
proof (cases "A = {}")
  case True
  then show ?thesis by simp
next
  case False
  with assms show ?thesis by (simp add: max.assoc)
qed

lemma cummax_acc_Some:
  "i < length xs \<Longrightarrow>
   cummax_acc (Some m) (map Some xs) ! i = Some (Max (insert m (set (take (Suc i) xs))))"
proof (induction xs arbitrary: m i)
  case Nil
  then show ?case by simp
next
  case (Cons x xs)
  show ?case
  proof (cases i)
    case 0
    then show ?thesis by (simp add: max.commute)
  next
    case (Suc j)
    with Cons.prems have "j < length xs" by simp
    from Cons.IH[OF this, of "max m x"] Suc show ?thesis
      by (simp add: Max_insert_max del: Max_insert)
  qed
qed

lemma cummax_Some:
  assumes "i < length xs"
  shows "cummax (map Some xs) ! i = Some (Max (set (take (Suc i) xs)))"
proof (cases xs)
  case Nil
  with assms show ?thesis by simp
next
  case (Cons x ys)
  show ?thesis
  proof (cases i)
    case 0
    then show ?thesis using Cons by (simp add: cummax_def)
  next
    case (Suc j)
    with assms Cons have "j < length ys" by simp
    from cummax_acc_Some[OF this, of x] Suc Cons show ?thesis
      by (simp add: cummax_def)
  qed
qed

lemma all_defined_map_Some:
  assumes "\<forall>c\<in>set close. \<exists>x. c = Some x \<and> P x"
  shows "\<exists>xs. close = map Some xs \<and> (\<forall>x\<in>set xs. P x)"
  using assms
proof (induction close)
  case Nil
  then show ?case by simp
next
  case (Cons c cs)
  then obtain x where x: "c = Some x" "P x" by auto
  from Cons obtain xs where xs: "cs = map Some xs" "\<forall>x\<in>set xs. P x" by auto
  show ?case using x xs by (intro exI[of _ "x # xs"]) simp
qed

subsection \<open>Drawdown\<close>

text \<open>
  Claim C6. In a series whose close prices are all defined and strictly positive, every row
  has a defined drawdown percentage: it is the close divided by the running maximum of close
  up to and including that row, minus 1; it is at most 0, and it is 0 exactly when the row's
  close equals the running peak.
\<close>

theorem drawdown_nonpositive:
  assumes pos: "\<forall>c\<in>set close. \<exists>x. c = Some x \<and> 0 < x"
    and i: "i < length close"
  shows "\<exists>c p. close ! i = Some c
           \<and> peak_to_date close ! i = Some p
           \<and> p = Max (set (take (Suc i) (map the close)))
           \<and> drawdown_pct close ! i = Some (c / p - 1)
           \<and> c / p - 1 \<le> 0
           \<and> (c / p - 1 = 0 \<longleftrightarrow> c = p)"
proof -
  from all_defined_map_Some[OF pos] obtain xs
    where cl: "close = map Some xs" and xpos: "\<forall>x\<in>set xs. 0 < x"
    by blast
  have the_xs: "map the close = xs" by (simp add: cl comp_def)
  from i cl have ix: "i < length xs" by simp
  define c where "c = xs ! i"
  define p where "p = Max (set (take (Suc i) xs))"
  have cin: "c \<in> set (take (Suc i) xs)"
    using ix by (auto simp: c_def in_set_conv_nth intro!: exI[of _ i])
  then have cp: "c \<le> p" by (simp add: p_def)
  have "c \<in> set xs" using ix by (simp add: c_def)
  then have c0: "0 < c" using xpos by blast
  with cp have p0: "0 < p" by simp
  have 1: "close ! i = Some c" using cl ix by (simp add: c_def)
  have 2: "peak_to_date close ! i = Some p"
    unfolding peak_to_date_def using cummax_Some[OF ix] cl by (simp add: p_def)
  have len: "length (peak_to_date close) = length close"
    by (simp add: peak_to_date_def cummax_def cummax_acc_length)
  have 3: "drawdown_pct close ! i = Some (c / p - 1)"
    using i len 1 2 p0 by (simp add: drawdown_pct_def)
  have 4: "c / p - 1 \<le> 0" using cp p0 by (simp add: divide_le_eq)
  have 5: "c / p - 1 = 0 \<longleftrightarrow> c = p" using p0 by (simp add: divide_eq_eq)
  show ?thesis using 1 2 3 4 5 by (simp add: p_def the_xs)
qed

text \<open>The series 10, 8, 12: the second row lies 20 percent under the peak of 10.\<close>

theorem drawdown_nonpositive_witness:
  "drawdown_pct [Some 10, Some 8, Some 12] = [Some 0, Some (- 1 / 5), Some 0]
   \<and> (\<exists>c p. [Some 10, Some 8, Some (12::real)] ! 1 = Some c
           \<and> peak_to_date [Some 10, Some 8, Some 12] ! 1 = Some p
           \<and> p = Max (set (take (Suc 1) (map the [Some 10, Some 8, Some 12])))
           \<and> drawdown_pct [Some 10, Some 8, Some 12] ! 1 = Some (c / p - 1)
           \<and> c / p - 1 \<le> 0 \<and> (c / p - 1 = 0 \<longleftrightarrow> c = p))"
proof -
  have h: "\<forall>c\<in>set [Some 10, Some 8, Some (12::real)]. \<exists>x. c = Some x \<and> 0 < x"
    by simp
  have l: "(1::nat) < length [Some 10, Some 8, Some (12::real)]"
    by simp
  have v: "drawdown_pct [Some 10, Some 8, Some 12] = [Some 0, Some (- 1 / 5), Some 0]"
    by (simp add: drawdown_pct_def peak_to_date_def cummax_def)
  from drawdown_nonpositive[OF h l] v show ?thesis
    by (intro conjI) assumption+
qed

subsection \<open>Volatility regime\<close>

lemma vol_regime_length: "length (vol_regime vol) = length vol"
  by (simp add: vol_regime_def Let_def)

lemma vol_regime_nth:
  assumes "i < length vol"
  shows "vol_regime vol ! i =
           (if fle (vol ! i) (quantile (33 / 100) vol) then ''Low''
            else if fge (vol ! i) (quantile (67 / 100) vol) then ''High''
            else ''Med'')"
  using assms by (simp add: vol_regime_def Let_def)

lemma rolling_length: "length (rolling n f xs) = length xs"
  by (simp add: rolling_def)

lemma rolling_warmup:
  assumes "i < length xs" and "Suc i < n"
  shows "rolling n f xs ! i = None"
  using assms by (simp add: rolling_def)

lemma vol_60_length: "length (vol_60 lr) = length lr"
  by (simp add: vol_60_def rolling_length fillna0_def)

lemma vol_60_warmup:
  assumes "i < length lr" and "i < 59"
  shows "vol_60 lr ! i = None"
proof -
  have "i < length (fillna0 lr)" using assms by (simp add: fillna0_def)
  moreover have "Suc i < 60" using assms by simp
  ultimately have "rolling 60 std (fillna0 lr) ! i = None"
    by (rule rolling_warmup)
  moreover have "i < length (rolling 60 std (fillna0 lr))"
    using assms by (simp add: rolling_length fillna0_def)
  ultimately show ?thesis by (simp add: vol_60_def fscale_def)
qed

text \<open>
  Claim C10. The regime column has one label per row. The 60-day volatility of each of the
  first 59 rows is undefined (so it is undefined on every row of a series of fewer than 60
  observations), and every row whose 60-day volatility is undefined is labelled "Med".
\<close>

theorem vol_regime_undefined_is_Med:
  assumes "i < length log_ret_1d"
  shows "length (vol_regime (vol_60 log_ret_1d)) = length log_ret_1d
         \<and> (i < 59 \<longrightarrow> vol_60 log_ret_1d ! i = None)
         \<and> (vol_60 log_ret_1d ! i = None \<longrightarrow> vol_regime (vol_60 log_ret_1d) ! i = ''Med'')"
proof (intro conjI impI)
  show "length (vol_regime (vol_60 log_ret_1d)) = length log_ret_1d"
    by (simp add: vol_regime_length vol_60_length)
  show "vol_60 log_ret_1d ! i = None" if "i < 59"
    using assms that by (rule vol_60_warmup)
  show "vol_regime (vol_60 log_ret_1d) ! i = ''Med''" if "vol_60 log_ret_1d ! i = None"
    using assms that by (simp add: vol_regime_nth vol_60_length)
qed

text \<open>Sixty-one rows of constant price: row 58 has no volatility yet and is "Med".\<close>

theorem vol_regime_undefined_is_Med_witness:
  "vol_60 (None # replicate 60 (Some 0)) ! 58 = None
   \<and> vol_regime (vol_60 (None # replicate 60 (Some 0))) ! 58 = ''Med''
   \<and> length (vol_regime (vol_60 (None # replicate 60 (Some 0)))) = 61"
proof -
  have l: "58 < length (None # replicate 60 (Some (0::real)))" by simp
  have w: "(58::nat) < 59" by simp
  from vol_regime_undefined_is_Med[OF l] w show ?thesis by simp
qed

lemma rolling_nth:
  assumes "i < length xs"
  shows "rolling n f xs ! i =
           (if Suc i < n then None
            else (let w = take n (drop (Suc i - n) xs)
                  in if None \<in> set w then None else f (map the w)))"
  using assms by (simp add: rolling_def)

lemma std_flat: "2 \<le> n \<Longrightarrow> std (replicate n c) = Some 0"
  by (simp add: std_def mean_def sum_list_replicate comp_def)

lemma fillna0_flat: "fillna0 (None # replicate n (Some 0)) = replicate (Suc n) (Some 0)"
  by (simp add: fillna0_def)

lemma vol_60_flat:
  assumes "59 \<le> i" and "i < Suc n"
  shows "vol_60 (None # replicate n (Some 0)) ! i = Some 0"
proof -
  let ?xs = "replicate (Suc n) (Some (0::real))"
  have len: "i < length ?xs" using assms by simp
  have w: "take 60 (drop (Suc i - 60) ?xs) = replicate 60 (Some 0)"
    using assms by (simp add: min_def del: replicate_Suc)
  have "rolling 60 std ?xs ! i = std (replicate 60 0)"
    using assms by (simp only: rolling_nth[OF len] w Let_def) (simp add: comp_def)
  also have "\<dots> = Some 0" by (rule std_flat) simp
  finally show ?thesis
    using len by (simp add: vol_60_def fillna0_flat rolling_length fscale_def del: replicate_Suc)
qed

lemma ne_set_nonempty: "x \<in> set xs \<Longrightarrow> xs \<noteq> []"
  by auto

lemma quantile_defined:
  assumes "Some v \<in> set col"
  shows "\<exists>a. quantile q col = Some a"
proof -
  have "v \<in> set (List.map_filter id col)"
    using assms by (auto simp: map_filter_def intro!: image_eqI[of _ _ "Some v"])
  then have "v \<in> set (sort (List.map_filter id col))"
    by simp
  then have "sort (List.map_filter id col) \<noteq> []"
    by (rule ne_set_nonempty)
  then show ?thesis
    by (simp add: quantile_def Let_def)
qed

lemma vol_regime_by_ticker_lookup:
  "map_of (vol_regime_by_ticker groups) t =
     map_option (\<lambda>lr. vol_regime (vol_60 lr)) (map_of groups t)"
  by (simp add: vol_regime_by_ticker_def map_of_map)

text \<open>
  Claim C2, as the code has it. The label of an instrument's row is decided by that
  instrument's own 60-day volatility column: with \<open>a\<close> and \<open>b\<close> its 33rd and 67th
  percentiles, a row with defined volatility \<open>v\<close> is "Low" exactly when \<open>v \<le> a\<close>, "High"
  exactly when \<open>a < v\<close> and \<open>b \<le> v\<close>, and "Med" exactly when \<open>a < v < b\<close>; the three
  cases exclude each other and cover every row.
\<close>

theorem vol_regime_thresholds:
  assumes grp: "map_of groups t = Some log_ret_1d"
    and i: "i < length log_ret_1d"
    and v: "vol_60 log_ret_1d ! i = Some v"
  shows "\<exists>a b labels.
           quantile (33 / 100) (vol_60 log_ret_1d) = Some a
         \<and> quantile (67 / 100) (vol_60 log_ret_1d) = Some b
         \<and> map_of (vol_regime_by_ticker groups) t = Some labels
         \<and> length labels = length log_ret_1d
         \<and> labels ! i \<in> {''Low'', ''Med'', ''High''}
         \<and> (labels ! i = ''Low'' \<longleftrightarrow> v \<le> a)
         \<and> (labels ! i = ''High'' \<longleftrightarrow> a < v \<and> b \<le> v)
         \<and> (labels ! i = ''Med'' \<longleftrightarrow> a < v \<and> v < b)"
proof -
  let ?vol = "vol_60 log_ret_1d"
  have iv: "i < length ?vol" using i by (simp add: vol_60_length)
  then have "Some v \<in> set ?vol" using v by (metis nth_mem)
  then obtain a b where a: "quantile (33 / 100) ?vol = Some a"
    and b: "quantile (67 / 100) ?vol = Some b"
    using quantile_defined by meson
  have lab: "map_of (vol_regime_by_ticker groups) t = Some (vol_regime ?vol)"
    by (simp add: vol_regime_by_ticker_lookup grp)
  have n: "vol_regime ?vol ! i =
             (if v \<le> a then ''Low'' else if b \<le> v then ''High'' else ''Med'')"
    by (simp add: vol_regime_nth[OF iv] v a b)
  have len: "length (vol_regime ?vol) = length log_ret_1d"
    by (simp add: vol_regime_length vol_60_length)
  have "vol_regime ?vol ! i \<in> {''Low'', ''Med'', ''High''}
        \<and> (vol_regime ?vol ! i = ''Low'' \<longleftrightarrow> v \<le> a)
        \<and> (vol_regime ?vol ! i = ''High'' \<longleftrightarrow> a < v \<and> b \<le> v)
        \<and> (vol_regime ?vol ! i = ''Med'' \<longleftrightarrow> a < v \<and> v < b)"
    unfolding n by auto
  with a b lab len show ?thesis by blast
qed

lemma vol_60_flat_column:
  "vol_60 (None # replicate 60 (Some 0)) = replicate 59 None @ [Some 0, Some 0]"
proof (rule nth_equalityI)
  show "length (vol_60 (None # replicate 60 (Some 0))) = length (replicate 59 None @ [Some 0, Some (0::real)])"
    by (simp add: vol_60_length)
next
  fix i assume "i < length (vol_60 (None # replicate 60 (Some 0)))"
  then have i: "i < 61" by (simp add: vol_60_length)
  show "vol_60 (None # replicate 60 (Some 0)) ! i = (replicate 59 None @ [Some 0, Some 0]) ! i"
  proof (cases "i < 59")
    case True
    then show ?thesis by (simp add: vol_60_warmup nth_append)
  next
    case False
    then have "59 \<le> i" by simp
    moreover from this i have "i = 59 \<or> i = 60" by arith
    ultimately show ?thesis using i
      by (auto simp: vol_60_flat nth_append)
  qed
qed

text \<open>One instrument with 61 rows of constant price: both defined rows are "Low".\<close>

theorem vol_regime_thresholds_witness:
  "map_of (vol_regime_by_ticker [(''IBM'', None # replicate 60 (Some 0))]) ''IBM''
     = Some (replicate 59 ''Med'' @ [''Low'', ''Low''])
   \<and> (\<exists>a b labels.
           quantile (33 / 100) (vol_60 (None # replicate 60 (Some 0))) = Some a
         \<and> quantile (67 / 100) (vol_60 (None # replicate 60 (Some 0))) = Some b
         \<and> map_of (vol_regime_by_ticker [(''IBM'', None # replicate 60 (Some 0))]) ''IBM''
             = Some labels
         \<and> length labels = length (None # replicate 60 (Some (0::real)))
         \<and> labels ! 59 \<in> {''Low'', ''Med'', ''High''}
         \<and> (labels ! 59 = ''Low'' \<longleftrightarrow> 0 \<le> a)
         \<and> (labels ! 59 = ''High'' \<longleftrightarrow> a < 0 \<and> b \<le> 0)
         \<and> (labels ! 59 = ''Med'' \<longleftrightarrow> a < 0 \<and> 0 < b))"
proof -
  have g: "map_of [(''IBM'', None # replicate 60 (Some (0::real)))] ''IBM''
             = Some (None # replicate 60 (Some 0))"
    by simp
  have l: "59 < length (None # replicate 60 (Some (0::real)))"
    by simp
  have v: "vol_60 (None # replicate 60 (Some 0)) ! 59 = Some 0"
    by (rule vol_60_flat) simp_all
  have e: "vol_regime (replicate 59 None @ [Some 0, Some 0]) = replicate 59 ''Med'' @ [''Low'', ''Low'']"
    by code_simp
  have m: "map_of (vol_regime_by_ticker [(''IBM'', None # replicate 60 (Some 0))]) ''IBM''
             = Some (replicate 59 ''Med'' @ [''Low'', ''Low''])"
    by (simp only: vol_regime_by_ticker_lookup g option.map vol_60_flat_column e)
  from vol_regime_thresholds[OF g l v] m show ?thesis
    by (intro conjI) assumption+
qed

text \<open>
  Claim C2 as stated fails in two ways. In the column 1, 1, 1, 2, 3 (after the 59 undefined
  rows) the 33rd percentile is 1 and the 67th is 1.68: the rows with volatility 1 are not
  strictly below the 33rd percentile and lie below the 67th, yet they are "Low", not "Med".
  With a constant price both percentiles equal the volatility 0: the rows are at the 67th
  percentile, yet they are "Low", not "High".
\<close>

theorem vol_regime_counterexample:
  "(replicate 59 None @ [Some 1, Some 1, Some 1, Some 2, Some 3]) ! 59 = Some (1::real)
   \<and> quantile (33 / 100) (replicate 59 None @ [Some 1, Some 1, Some 1, Some 2, Some 3]) = Some 1
   \<and> quantile (67 / 100) (replicate 59 None @ [Some 1, Some 1, Some 1, Some 2, Some 3]) = Some (42 / 25)
   \<and> vol_regime (replicate 59 None @ [Some 1, Some 1, Some 1, Some 2, Some 3]) ! 59 = ''Low''
   \<and> vol_60 (None # replicate 60 (Some 0)) ! 59 = Some 0
   \<and> quantile (33 / 100) (vol_60 (None # replicate 60 (Some 0))) = Some 0
   \<and> quantile (67 / 100) (vol_60 (None # replicate 60 (Some 0))) = Some 0
   \<and> vol_regime (vol_60 (None # replicate 60 (Some 0))) ! 59 = ''Low''"
proof -
  have 1: "(replicate 59 None @ [Some 1, Some 1, Some 1, Some 2, Some 3]) ! 59 = Some (1::real)"
    by (simp add: nth_append)
  have 2: "quantile (33 / 100) (replicate 59 None @ [Some 1, Some 1, Some 1, Some 2, Some 3]) = Some 1"
    by code_simp
  have 3: "quantile (67 / 100) (replicate 59 None @ [Some 1, Some 1, Some 1, Some 2, Some 3]) = Some (42 / 25)"
    by code_simp
  have 4: "vol_regime (replicate 59 None @ [Some 1, Some 1, Some 1, Some 2, Some 3]) ! 59 = ''Low''"
    by code_simp
  have 5: "(replicate 59 None @ [Some 0, Some 0]) ! 59 = Some (0::real)"
    by (simp add: nth_append)
  have 6: "quantile (33 / 100) (replicate 59 None @ [Some 0, Some 0]) = Some 0"
    by code_simp
  have 7: "quantile (67 / 100) (replicate 59 None @ [Some 0, Some 0]) = Some 0"
    by code_simp
  have 8: "vol_regime (replicate 59 None @ [Some 0, Some 0]) ! 59 = ''Low''"
    by code_simp
  show ?thesis
    unfolding vol_60_flat_column using 1 2 3 4 5 6 7 8 by (intro conjI) assumption+
qed

section \<open>Properties of the default sort\<close>

text \<open>
  The introsort returns for every array, and what it returns is a rearrangement of the
  positions; so \<open>sort_values\<close> returns the rows of the frame in some order.
\<close>

lemma length_swap [simp]: "length (swap i j xs) = length xs"
  by (simp add: swap_def)

lemma mset_swap_pos:
  "i < length xs \<Longrightarrow> j < length xs \<Longrightarrow> mset (swap i j xs) = mset xs"
  unfolding swap_def by (rule mset_swap)

lemma swap_nth_second: "i < length xs \<Longrightarrow> j < length xs \<Longrightarrow> swap i j xs ! j = xs ! i"
  by (simp add: swap_def)

lemma swap_nth_other: "k \<noteq> i \<Longrightarrow> k \<noteq> j \<Longrightarrow> swap i j xs ! k = xs ! k"
  by (simp add: swap_def)

lemma median3_perm:
  assumes "pl < length ts" "pm < length ts" "pr < length ts"
  shows "mset (median3 v pl pm pr ts) = mset ts \<and> length (median3 v pl pm pr ts) = length ts"
  using assms by (simp add: median3_def Let_def mset_swap_pos)

lemma scan_up_gt: "ip < scan_up v vp ts ip"
proof (induction v vp ts ip rule: scan_up.induct)
  case (1 v vp ts ip)
  show ?case
  proof (cases "Suc ip < length ts \<and> v ! (ts ! Suc ip) < vp")
    case True
    with 1 have "Suc ip < scan_up v vp ts (Suc ip)" by simp
    with True show ?thesis by (subst scan_up.simps) simp
  next
    case False
    then show ?thesis by (subst scan_up.simps) auto
  qed
qed

lemma scan_up_le:
  "ip < k \<Longrightarrow> k < length ts \<Longrightarrow> \<not> v ! (ts ! k) < vp \<Longrightarrow> scan_up v vp ts ip \<le> k"
proof (induction v vp ts ip rule: scan_up.induct)
  case (1 v vp ts ip)
  show ?case
  proof (cases "Suc ip < length ts \<and> v ! (ts ! Suc ip) < vp")
    case True
    with "1.prems" have "Suc ip \<noteq> k" by auto
    with "1.prems" have "Suc ip < k" by simp
    with "1.IH" "1.prems" True have "scan_up v vp ts (Suc ip) \<le> k" by simp
    with True show ?thesis by (subst scan_up.simps) simp
  next
    case False
    with "1.prems" show ?thesis by (subst scan_up.simps) auto
  qed
qed

lemma scan_down_le: "scan_down v vp ts jp \<le> jp - 1"
proof (induction v vp ts jp rule: scan_down.induct)
  case (1 v vp ts jp)
  show ?case
  proof (cases "1 < jp \<and> vp < v ! (ts ! (jp - 1))")
    case True
    with 1 have "scan_down v vp ts (jp - 1) \<le> jp - 1 - 1" by simp
    with True show ?thesis by (subst scan_down.simps) simp
  next
    case False
    then show ?thesis by (subst scan_down.simps) auto
  qed
qed

lemma partition_loop_ok:
  assumes "k < length ts" "jp \<le> k" "ip < k" "\<not> v ! (ts ! k) < vp" "jp < fuel"
  shows "\<exists>ts' i'. partition_loop fuel v vp ts ip jp = Some (ts', i')
           \<and> mset ts' = mset ts \<and> length ts' = length ts \<and> ip < i' \<and> i' \<le> k"
  using assms
proof (induction fuel arbitrary: ts ip jp)
  case 0
  then show ?case by simp
next
  case (Suc fuel)
  let ?i = "scan_up v vp ts ip"
  let ?j = "scan_down v vp ts jp"
  have i1: "ip < ?i" by (rule scan_up_gt)
  have i2: "?i \<le> k" using Suc.prems by (intro scan_up_le) auto
  have j1: "?j \<le> jp - 1" by (rule scan_down_le)
  show ?case
  proof (cases "?i \<ge> ?j")
    case True
    then show ?thesis using i1 i2 by (simp add: Let_def)
  next
    case False
    then have lt: "?i < ?j" by simp
    with j1 have jpos: "0 < jp" and jlt: "?j < jp" by auto
    have jk: "?j < k" using jlt Suc.prems by simp
    have ik: "?i < k" using lt jk by simp
    let ?ts = "swap ?i ?j ts"
    have a: "k < length ?ts" using Suc.prems by simp
    have b: "?j \<le> k" using jk by simp
    have c: "\<not> v ! (?ts ! k) < vp"
      using Suc.prems ik jk by (simp add: swap_nth_other)
    have d: "?j < fuel" using jlt Suc.prems by simp
    from Suc.IH[OF a b ik c d] obtain ts' i' where
      r: "partition_loop fuel v vp ?ts ?i ?j = Some (ts', i')"
         "mset ts' = mset ?ts" "length ts' = length ?ts" "?i < i'" "i' \<le> k"
      by blast
    have m: "mset ?ts = mset ts"
      using ik jk Suc.prems by (intro mset_swap_pos) auto
    show ?thesis
      using False r m i1 by (simp add: Let_def)
  qed
qed

lemma partition_ok:
  assumes "pr < length ts" "pl + 2 \<le> pr"
  shows "\<exists>ts4 ip. partition v pl pr ts = Some (ts4, ip)
           \<and> mset ts4 = mset ts \<and> length ts4 = length ts \<and> pl < ip \<and> ip < pr"
proof -
  let ?pm = "pl + (pr - pl) div 2"
  let ?ts1 = "median3 v pl ?pm pr ts"
  let ?vp = "v ! (?ts1 ! ?pm)"
  let ?ts2 = "swap ?pm (pr - 1) ?ts1"
  have pm: "?pm < length ts" "pl < length ts" "?pm \<le> pr - 1" using assms by auto
  have m1: "mset ?ts1 = mset ts" "length ?ts1 = length ts"
    using median3_perm[where pl=pl and ts=ts and pm="?pm" and pr=pr and v=v] assms pm by auto
  have m2: "mset ?ts2 = mset ts" "length ?ts2 = length ts"
    using m1 pm assms by (auto simp: mset_swap_pos)
  have sent: "\<not> v ! (?ts2 ! (pr - 1)) < ?vp"
    using pm assms m1 by (simp add: swap_nth_second)
  have k1: "pr - 1 < length ?ts2" using assms m2 by simp
  have k2: "pr - 1 \<le> pr - 1" by simp
  have k3: "pl < pr - 1" using assms by simp
  have k4: "pr - 1 < length ts" using assms by simp
  have "\<exists>ts' i'. partition_loop (length ts) v ?vp ?ts2 pl (pr - 1) = Some (ts', i')
           \<and> mset ts' = mset ?ts2 \<and> length ts' = length ?ts2 \<and> pl < i' \<and> i' \<le> pr - 1"
    by (rule partition_loop_ok[OF k1 k2 k3 sent k4])
  then obtain ts3 i' where
    r: "partition_loop (length ts) v ?vp ?ts2 pl (pr - 1) = Some (ts3, i')"
       "mset ts3 = mset ?ts2" "length ts3 = length ?ts2" "pl < i'" "i' \<le> pr - 1"
    by blast
  have "mset (swap i' (pr - 1) ts3) = mset ts3"
    using r m2 assms by (intro mset_swap_pos) auto
  then show ?thesis
    using r m2 assms by (auto simp: partition_def Let_def)
qed

lemma mset_shift_hole:
  assumes "0 < j" "j < length ts"
  shows "mset (ts[j := ts ! (j - 1), j - 1 := x]) = mset (ts[j := x])"
proof -
  let ?ys = "ts[j := x]"
  have "mset (?ys[j - 1 := ?ys ! j, j := ?ys ! (j - 1)]) = mset ?ys"
    using assms by (intro mset_swap) auto
  moreover have "?ys[j - 1 := ?ys ! j, j := ?ys ! (j - 1)] = ts[j := ts ! (j - 1), j - 1 := x]"
    using assms by (auto simp: list_eq_iff_nth_eq nth_list_update)
  ultimately show ?thesis by simp
qed

lemma shift_up_hole:
  "pj < length ts \<Longrightarrow> shift_up v vp pl ts pj = (ts', pj') \<Longrightarrow>
     length ts' = length ts \<and> pj' \<le> pj \<and> (\<forall>x. mset (ts'[pj' := x]) = mset (ts[pj := x]))"
proof (induction v vp pl ts pj arbitrary: ts' pj' rule: shift_up.induct)
  case (1 v vp pl ts pj)
  show ?case
  proof (cases "pj > pl \<and> vp < v ! (ts ! (pj - 1))")
    case True
    then have r: "shift_up v vp pl (ts[pj := ts ! (pj - 1)]) (pj - 1) = (ts', pj')"
      using "1.prems"(2) by (subst (asm) shift_up.simps) simp
    have l: "pj - 1 < length (ts[pj := ts ! (pj - 1)])" using "1.prems"(1) by simp
    from "1.IH"[OF True l r] have
      ih: "length ts' = length ts" "pj' \<le> pj - 1"
          "\<forall>x. mset (ts'[pj' := x]) = mset (ts[pj := ts ! (pj - 1), pj - 1 := x])"
      by simp_all
    have "0 < pj" using True by simp
    then have "mset (ts[pj := ts ! (pj - 1), pj - 1 := x]) = mset (ts[pj := x])" for x
      using "1.prems"(1) by (rule mset_shift_hole)
    with ih show ?thesis by auto
  next
    case False
    then have "shift_up v vp pl ts pj = (ts, pj)"
      by (subst shift_up.simps) auto
    with "1.prems"(2) show ?thesis by simp
  qed
qed

lemma insertion_sort_perm:
  "pr < length ts \<or> pr < ip \<Longrightarrow>
     mset (insertion_sort v pl pr ts ip) = mset ts"
proof (induction v pl pr ts ip rule: insertion_sort.induct)
  case (1 v pl pr ts ip)
  show ?case
  proof (cases "ip \<le> pr")
    case False
    then show ?thesis by (subst insertion_sort.simps) simp
  next
    case True
    with "1.prems" have len: "pr < length ts" "ip < length ts" by auto
    obtain ts' pj where s: "shift_up v (v ! (ts ! ip)) pl ts ip = (ts', pj)"
      by (cases "shift_up v (v ! (ts ! ip)) pl ts ip") auto
    from shift_up_hole[OF len(2) s] have
      h: "length ts' = length ts" "mset (ts'[pj := ts ! ip]) = mset (ts[ip := ts ! ip])"
      by auto
    have "pr < length (ts'[pj := ts ! ip]) \<or> pr < Suc ip" using h len by simp
    with "1.IH"[OF True refl s[symmetric]] have
      "mset (insertion_sort v pl pr (ts'[pj := ts ! ip]) (Suc ip)) = mset (ts'[pj := ts ! ip])"
      by simp
    with h True s show ?thesis by (subst insertion_sort.simps) (simp add: Let_def)
  qed
qed

lemma quick_inner_perm:
  assumes hs: "\<And>v pl pr ts. mset (hs v pl pr ts) = mset ts"
  shows "pr < length ts \<Longrightarrow> pr - pl < fuel \<Longrightarrow>
           \<exists>ts'. quick_inner fuel hs v cdepth pl pr ts = Some ts' \<and> mset ts' = mset ts"
proof (induction fuel arbitrary: cdepth pl pr ts)
  case 0
  then show ?case by simp
next
  case (Suc fuel)
  show ?case
  proof (cases "pr - pl > 15")
    case False
    have "mset (insertion_sort v pl pr ts (Suc pl)) = mset ts"
      using Suc.prems(1) by (intro insertion_sort_perm) simp
    with False show ?thesis by simp
  next
    case True
    then have "pl + 2 \<le> pr" by simp
    from partition_ok[OF Suc.prems(1) this, of v] obtain ts4 ip where
      p: "partition v pl pr ts = Some (ts4, ip)" "mset ts4 = mset ts"
         "length ts4 = length ts" "pl < ip" "ip < pr"
      by blast
    let ?small = "ip - pl < pr - ip"
    let ?il = "if ?small then pl else Suc ip"
    let ?ir = "if ?small then ip - 1 else pr"
    let ?sl = "if ?small then Suc ip else pl"
    let ?sr = "if ?small then pr else ip - 1"
    have i1: "?ir < length ts4" using p Suc.prems by auto
    have i2: "?ir - ?il < fuel" using p Suc.prems by auto
    from Suc.IH[OF i1 i2, of "cdepth - 1"] obtain ts5 where
      a: "quick_inner fuel hs v (cdepth - 1) ?il ?ir ts4 = Some ts5" "mset ts5 = mset ts4"
      by blast
    have l5: "length ts5 = length ts4" using a(2) by (metis size_mset)
    have s1: "?sr < length ts5" using p Suc.prems l5 by auto
    have s2: "?sr - ?sl < fuel" using p Suc.prems by auto
    from Suc.IH[OF s1 s2, of "cdepth - 1"] obtain ts6 where
      b: "quick_inner fuel hs v (cdepth - 1) ?sl ?sr ts5 = Some ts6" "mset ts6 = mset ts5"
      by blast
    show ?thesis
      using True p a b hs by simp
  qed
qed

lemma aquicksort_perm:
  assumes hs: "\<And>v pl pr ts. mset (hs v pl pr ts) = mset ts"
  shows "\<exists>ts. aquicksort hs v = Some ts \<and> mset ts = mset [0..<length v]"
proof (cases "v = []")
  case True
  have "insertion_sort v 0 0 [] (Suc 0) = []"
    by (subst insertion_sort.simps) simp
  with True show ?thesis by (simp add: aquicksort_def)
next
  case False
  then have 1: "length v - 1 < length [0..<length v]" by simp
  have 2: "length v - 1 - 0 < Suc (length v)" by simp
  from quick_inner_perm[of hs "length v - 1" "[0..<length v]" 0 "Suc (length v)" v, OF hs 1 2]
  show ?thesis by (simp add: aquicksort_def Let_def)
qed

lemma sort_values_perm:
  assumes hs: "\<And>v pl pr ts. mset (hs v pl pr ts) = mset ts"
  shows "\<exists>g. sort_values hs key df = Some g \<and> mset g = mset df"
proof -
  from aquicksort_perm[of hs "map key df", OF hs] obtain ts where
    t: "aquicksort hs (map key df) = Some ts" "mset ts = mset [0..<length df]"
    by auto
  have "mset (map (\<lambda>i. df ! i) ts) = image_mset (\<lambda>i. df ! i) (mset ts)" by simp
  also have "\<dots> = image_mset (\<lambda>i. df ! i) (mset [0..<length df])" using t by simp
  also have "\<dots> = mset (map (\<lambda>i. df ! i) [0..<length df])" by simp
  also have "\<dots> = mset df" by (simp add: map_nth)
  finally show ?thesis using t by (simp add: sort_values_def)
qed

section \<open>Properties of the latest-snapshot table\<close>

lemma pct_against_total: "\<exists>c. pct_against a b = Inr c"
  by (cases b) (simp_all add: pct_against_def)

lemma pct_against_zero: "pct_against a (Some 0) = Inr None"
  by (simp add: pct_against_def)

lemma pct_vs_total: "\<exists>c. pct_vs g k = Inr c"
  using pct_against_total by (simp add: pct_vs_def)

lemma pct_vs_date_total: "\<exists>c. pct_vs_date g t = Inr c"
  using pct_against_total by (simp add: pct_vs_date_def Let_def)

lemma pct_vs_short: "length g \<le> k \<Longrightarrow> pct_vs g k = Inr None"
  by (simp add: pct_vs_def)

lemma pct_vs_zero:
  "k < length g \<Longrightarrow> r_close (g ! (length g - 1 - k)) = Some 0 \<Longrightarrow> pct_vs g k = Inr None"
  by (simp add: pct_vs_def pct_against_zero)

lemma pct_vs_date_short: "\<forall>r\<in>set g. t < r_date r \<Longrightarrow> pct_vs_date g t = Inr None"
proof -
  assume "\<forall>r\<in>set g. t < r_date r"
  then have "filter (\<lambda>r. r_date r \<le> t) g = []"
    by (auto simp: filter_empty_conv)
  then show ?thesis by (simp add: pct_vs_date_def)
qed

lemma pct_vs_date_zero:
  "r_close (last (filter (\<lambda>r. r_date r \<le> t) g)) = Some 0 \<Longrightarrow> pct_vs_date g t = Inr None"
  by (simp add: pct_vs_date_def Let_def pct_against_zero)

lemma map_filter_id_empty: "List.map_filter id col = [] \<longleftrightarrow> (\<forall>c\<in>set col. c = None)"
  by (induction col) (auto simp: map_filter_simps split: option.splits)

lemma fmin_undefined: "fmin col = None \<longleftrightarrow> (\<forall>c\<in>set col. c = None)"
  by (simp add: fmin_def Let_def map_filter_id_empty)

lemma snapshot_of_fields:
  assumes "g \<noteq> []"
  shows "\<exists>p1 p5 p21 ytd.
           pct_vs g 1 = Inr p1 \<and> pct_vs g 5 = Inr p5 \<and> pct_vs g 21 = Inr p21
         \<and> pct_vs_date g (jan1 (r_date (last g))) = Inr ytd
         \<and> snapshot_of jan1 tk g =
             Inr \<lparr> s_ticker = tk, last_date = r_date (last g), last_close = r_close (last g),
                   pct_1d = p1, pct_1w = p5, pct_1m = p21, pct_ytd = ytd,
                   s_vol_60 = r_vol_60 (last g),
                   max_dd_1y = (if window_1y g \<noteq> []
                                then fmin (map r_drawdown_pct (window_1y g)) else None) \<rparr>"
proof -
  obtain p1 where p1: "pct_vs g 1 = Inr p1" using pct_vs_total by blast
  obtain p5 where p5: "pct_vs g 5 = Inr p5" using pct_vs_total by blast
  obtain p21 where p21: "pct_vs g 21 = Inr p21" using pct_vs_total by blast
  obtain ytd where ytd: "pct_vs_date g (jan1 (r_date (last g))) = Inr ytd"
    using pct_vs_date_total by blast
  show ?thesis
    using assms p1 p5 p21 ytd by (simp add: snapshot_of_def Let_def and_then_def)
qed

lemma max_dd_absent:
  "(if window_1y g \<noteq> [] then fmin (map r_drawdown_pct (window_1y g)) else None) = None
     \<longleftrightarrow> (\<forall>r\<in>set g. r_date (last g) - 365 \<le> r_date r \<longrightarrow> r_drawdown_pct r = None)"
  by (auto simp: fmin_undefined window_1y_def filter_empty_conv)

text \<open>
  The frame sort returns a rearrangement of the group, whatever the order it leaves equal
  dates in.
\<close>

lemma sorted_group:
  assumes "rearranges hs" and "grp \<noteq> []"
  shows "\<exists>g. sort_values hs r_date grp = Some g \<and> mset g = mset grp \<and> g \<noteq> []
           \<and> length g = length grp \<and> set g = set grp"
proof -
  from assms(1) have "\<And>v pl pr ts. mset (hs v pl pr ts) = mset ts"
    by (simp add: rearranges_def)
  from sort_values_perm[of hs r_date grp, OF this] obtain g where
    g: "sort_values hs r_date grp = Some g" "mset g = mset grp"
    by blast
  from g(2) have "length g = length grp" by (metis size_mset)
  moreover from g(2) have "set g = set grp" by (metis set_mset_mset)
  ultimately show ?thesis using g assms(2) by auto
qed

lemma collect_total:
  assumes "\<And>x. x \<in> set xs \<Longrightarrow> \<exists>y. f x = Some (Inr y) \<and> P x y"
  shows "\<exists>ys. collect f xs = Some (Inr ys) \<and> list_all2 P xs ys"
  using assms
proof (induction xs)
  case Nil
  then show ?case by simp
next
  case (Cons x xs)
  from Cons.prems obtain y where y: "f x = Some (Inr y)" "P x y" by auto
  from Cons obtain ys where ys: "collect f xs = Some (Inr ys)" "list_all2 P xs ys" by auto
  show ?case using y ys by simp
qed

lemma snapshot_short_history:
  assumes "rearranges hs" and "grp \<noteq> []"
  shows "\<exists>s. snapshot_row hs jan1 tk grp = Some (Inr s) \<and> s_ticker s = tk
           \<and> (length grp \<le> 1 \<longrightarrow> pct_1d s = None)
           \<and> (length grp \<le> 5 \<longrightarrow> pct_1w s = None)
           \<and> (length grp \<le> 21 \<longrightarrow> pct_1m s = None)
           \<and> ((\<forall>r\<in>set grp. jan1 (last_date s) < r_date r) \<longrightarrow> pct_ytd s = None)
           \<and> (max_dd_1y s = None
                \<longleftrightarrow> (\<forall>r\<in>set grp. last_date s - 365 \<le> r_date r \<longrightarrow> r_drawdown_pct r = None))
           \<and> (\<exists>r\<in>set grp. r_date r = last_date s)"
proof -
  from sorted_group[OF assms] obtain g where
    g: "sort_values hs r_date grp = Some g" "g \<noteq> []" "length g = length grp" "set g = set grp"
    by blast
  from snapshot_of_fields[OF g(2), of jan1 tk] obtain p1 p5 p21 ytd where
    p1: "pct_vs g 1 = Inr p1" and p5: "pct_vs g 5 = Inr p5" and p21: "pct_vs g 21 = Inr p21"
    and ytd: "pct_vs_date g (jan1 (r_date (last g))) = Inr ytd"
    and s: "snapshot_of jan1 tk g =
             Inr \<lparr> s_ticker = tk, last_date = r_date (last g), last_close = r_close (last g),
                   pct_1d = p1, pct_1w = p5, pct_1m = p21, pct_ytd = ytd,
                   s_vol_60 = r_vol_60 (last g),
                   max_dd_1y = (if window_1y g \<noteq> []
                                then fmin (map r_drawdown_pct (window_1y g)) else None) \<rparr>"
    by blast
  have a: "p = None" if "pct_vs g k = Inr p" "length grp \<le> k" for p k
    using pct_vs_short[of g k] that g(3) by simp
  have b: "ytd = None" if "\<forall>r\<in>set grp. jan1 (r_date (last g)) < r_date r"
    using pct_vs_date_short[of g "jan1 (r_date (last g))"] that ytd g(4) by simp
  have c: "(if window_1y g \<noteq> [] then fmin (map r_drawdown_pct (window_1y g)) else None) = None
             \<longleftrightarrow> (\<forall>r\<in>set grp. r_date (last g) - 365 \<le> r_date r \<longrightarrow> r_drawdown_pct r = None)"
    using max_dd_absent[of g] g(4) by simp
  have d: "\<exists>r\<in>set grp. r_date r = r_date (last g)"
    using g(2) g(4) last_in_set by blast
  show ?thesis
    unfolding snapshot_row_def g(1)
    using s a[OF p1] a[OF p5] a[OF p21] b c d by simp
qed

lemma snapshot_zero_reference:
  assumes "rearranges hs" and "grp \<noteq> []"
  shows "\<exists>s g. snapshot_row hs jan1 tk grp = Some (Inr s) \<and> s_ticker s = tk
           \<and> sort_values hs r_date grp = Some g
           \<and> (1 < length g \<and> r_close (g ! (length g - 1 - 1)) = Some 0 \<longrightarrow> pct_1d s = None)
           \<and> (5 < length g \<and> r_close (g ! (length g - 1 - 5)) = Some 0 \<longrightarrow> pct_1w s = None)
           \<and> (21 < length g \<and> r_close (g ! (length g - 1 - 21)) = Some 0 \<longrightarrow> pct_1m s = None)
           \<and> (r_close (last (filter (\<lambda>r. r_date r \<le> jan1 (last_date s)) g)) = Some 0
                \<longrightarrow> pct_ytd s = None)"
proof -
  from sorted_group[OF assms] obtain g where
    g: "sort_values hs r_date grp = Some g" "g \<noteq> []"
    by blast
  from snapshot_of_fields[OF g(2), of jan1 tk] obtain p1 p5 p21 ytd where
    p1: "pct_vs g 1 = Inr p1" and p5: "pct_vs g 5 = Inr p5" and p21: "pct_vs g 21 = Inr p21"
    and ytd: "pct_vs_date g (jan1 (r_date (last g))) = Inr ytd"
    and s: "snapshot_of jan1 tk g =
             Inr \<lparr> s_ticker = tk, last_date = r_date (last g), last_close = r_close (last g),
                   pct_1d = p1, pct_1w = p5, pct_1m = p21, pct_ytd = ytd,
                   s_vol_60 = r_vol_60 (last g),
                   max_dd_1y = (if window_1y g \<noteq> []
                                then fmin (map r_drawdown_pct (window_1y g)) else None) \<rparr>"
    by blast
  have a: "p = None"
    if "pct_vs g k = Inr p" "k < length g" "r_close (g ! (length g - 1 - k)) = Some 0"
    for p k
    using pct_vs_zero[of k g] that by simp
  have b: "ytd = None"
    if "r_close (last (filter (\<lambda>r. r_date r \<le> jan1 (r_date (last g))) g)) = Some 0"
    using pct_vs_date_zero[of "jan1 (r_date (last g))" g] that ytd by simp
  show ?thesis
    unfolding snapshot_row_def g(1)
    using s a[OF p1] a[OF p5] a[OF p21] b by simp
qed

lemma groups_nonempty:
  "t \<in> set (sort (remdups (map r_ticker prices))) \<Longrightarrow> filter (\<lambda>r. r_ticker r = t) prices \<noteq> []"
  by (auto simp: filter_empty_conv)

text \<open>A frame without rows has no snapshot table: the code raises \<open>KeyError\<close>.\<close>

lemma build_fact_latest_snapshot_empty:
  "build_fact_latest_snapshot hs jan1 [] = Some (Inl (KeyError ''ticker''))"
  by (simp add: build_fact_latest_snapshot_def)

text \<open>
  Claim C7. For a frame with at least one row, \<open>build_fact_latest_snapshot\<close> returns one
  row per instrument, in ticker order. In each row the change over 1, 5 and 21 observations is
  absent when the instrument has at most 1, 5 and 21 rows, and the year-to-date change is
  absent when every row of the instrument is dated after 1 January of the year of its last
  row; an absent field is \<open>None\<close>, never a zero. The minimum drawdown does not depend on
  the length of the history: its window of 365 days always holds the row of the last date,
  and the field is absent exactly when no row of the window has a defined drawdown.
\<close>

theorem snapshot_absent_when_history_short:
  assumes "rearranges hs" and "prices \<noteq> []"
  shows "\<exists>table. build_fact_latest_snapshot hs jan1 prices = Some (Inr table)
     \<and> map s_ticker table = sort (remdups (map r_ticker prices))
     \<and> (\<forall>s\<in>set table.
           (length (filter (\<lambda>r. r_ticker r = s_ticker s) prices) \<le> 1 \<longrightarrow> pct_1d s = None)
         \<and> (length (filter (\<lambda>r. r_ticker r = s_ticker s) prices) \<le> 5 \<longrightarrow> pct_1w s = None)
         \<and> (length (filter (\<lambda>r. r_ticker r = s_ticker s) prices) \<le> 21 \<longrightarrow> pct_1m s = None)
         \<and> ((\<forall>r\<in>set prices. r_ticker r = s_ticker s \<longrightarrow> jan1 (last_date s) < r_date r)
              \<longrightarrow> pct_ytd s = None)
         \<and> (max_dd_1y s = None
              \<longleftrightarrow> (\<forall>r\<in>set prices. r_ticker r = s_ticker s \<and> last_date s - 365 \<le> r_date r
                      \<longrightarrow> r_drawdown_pct r = None))
         \<and> (\<exists>r\<in>set prices. r_ticker r = s_ticker s \<and> r_date r = last_date s))"
proof -
  let ?grp = "\<lambda>t. filter (\<lambda>r. r_ticker r = t) prices"
  let ?P = "\<lambda>t s. s_ticker s = t
           \<and> (length (?grp t) \<le> 1 \<longrightarrow> pct_1d s = None)
           \<and> (length (?grp t) \<le> 5 \<longrightarrow> pct_1w s = None)
           \<and> (length (?grp t) \<le> 21 \<longrightarrow> pct_1m s = None)
           \<and> ((\<forall>r\<in>set (?grp t). jan1 (last_date s) < r_date r) \<longrightarrow> pct_ytd s = None)
           \<and> (max_dd_1y s = None
                \<longleftrightarrow> (\<forall>r\<in>set (?grp t). last_date s - 365 \<le> r_date r \<longrightarrow> r_drawdown_pct r = None))
           \<and> (\<exists>r\<in>set (?grp t). r_date r = last_date s)"
  have "\<exists>s. snapshot_row hs jan1 t (?grp t) = Some (Inr s) \<and> ?P t s"
    if "t \<in> set (sort (remdups (map r_ticker prices)))" for t
    using snapshot_short_history[OF assms(1) groups_nonempty[OF that], of jan1 t] by blast
  from collect_total[of "sort (remdups (map r_ticker prices))"
        "\<lambda>t. snapshot_row hs jan1 t (?grp t)" ?P, OF this]
  obtain table where t: "build_fact_latest_snapshot hs jan1 prices = Some (Inr table)"
    and all: "list_all2 ?P (sort (remdups (map r_ticker prices))) table"
    unfolding build_fact_latest_snapshot_def using assms(2) by auto
  from all have tick: "map s_ticker table = sort (remdups (map r_ticker prices))"
    by (induction rule: list_all2_induct) simp_all
  have "\<forall>s\<in>set table. ?P (s_ticker s) s"
    using all by (induction rule: list_all2_induct) simp_all
  then have "\<forall>s\<in>set table.
           (length (?grp (s_ticker s)) \<le> 1 \<longrightarrow> pct_1d s = None)
         \<and> (length (?grp (s_ticker s)) \<le> 5 \<longrightarrow> pct_1w s = None)
         \<and> (length (?grp (s_ticker s)) \<le> 21 \<longrightarrow> pct_1m s = None)
         \<and> ((\<forall>r\<in>set prices. r_ticker r = s_ticker s \<longrightarrow> jan1 (last_date s) < r_date r)
              \<longrightarrow> pct_ytd s = None)
         \<and> (max_dd_1y s = None
              \<longleftrightarrow> (\<forall>r\<in>set prices. r_ticker r = s_ticker s \<and> last_date s - 365 \<le> r_date r
                      \<longrightarrow> r_drawdown_pct r = None))
         \<and> (\<exists>r\<in>set prices. r_ticker r = s_ticker s \<and> r_date r = last_date s)"
    by (simp add: Ball_def Bex_def) blast
  with t tick show ?thesis by blast
qed

text \<open>
  Claim C9. The percentage change against a reference close of 0 is \<open>None\<close>, and computing
  it never reaches the division by zero. So, for a frame with at least one row,
  \<open>build_fact_latest_snapshot\<close> returns its table without error, and in each row the change
  over 1, 5 and 21 observations and the year-to-date change are absent when the reference
  row closed at 0, although that row exists. The reference rows are those of \<open>g\<close>, the
  group as \<open>sort_values("date")\<close> leaves it.
\<close>

theorem zero_reference_close_guarded:
  assumes "rearranges hs" and "prices \<noteq> []"
  shows "(\<forall>a b. \<exists>c. pct_against a b = Inr c)
   \<and> (\<forall>a. pct_against a (Some 0) = Inr None)
   \<and> (\<exists>table. build_fact_latest_snapshot hs jan1 prices = Some (Inr table)
     \<and> (\<forall>s\<in>set table. \<exists>g.
          sort_values hs r_date (filter (\<lambda>r. r_ticker r = s_ticker s) prices) = Some g
        \<and> (1 < length g \<and> r_close (g ! (length g - 1 - 1)) = Some 0 \<longrightarrow> pct_1d s = None)
        \<and> (5 < length g \<and> r_close (g ! (length g - 1 - 5)) = Some 0 \<longrightarrow> pct_1w s = None)
        \<and> (21 < length g \<and> r_close (g ! (length g - 1 - 21)) = Some 0 \<longrightarrow> pct_1m s = None)
        \<and> (r_close (last (filter (\<lambda>r. r_date r \<le> jan1 (last_date s)) g)) = Some 0
           \<longrightarrow> pct_ytd s = None)))"
proof (intro conjI allI)
  show "\<exists>c. pct_against a b = Inr c" for a b by (rule pct_against_total)
  show "pct_against a (Some 0) = Inr None" for a by (rule pct_against_zero)
  let ?grp = "\<lambda>t. filter (\<lambda>r. r_ticker r = t) prices"
  let ?P = "\<lambda>t s. s_ticker s = t \<and> (\<exists>g. sort_values hs r_date (?grp t) = Some g
           \<and> (1 < length g \<and> r_close (g ! (length g - 1 - 1)) = Some 0 \<longrightarrow> pct_1d s = None)
           \<and> (5 < length g \<and> r_close (g ! (length g - 1 - 5)) = Some 0 \<longrightarrow> pct_1w s = None)
           \<and> (21 < length g \<and> r_close (g ! (length g - 1 - 21)) = Some 0 \<longrightarrow> pct_1m s = None)
           \<and> (r_close (last (filter (\<lambda>r. r_date r \<le> jan1 (last_date s)) g)) = Some 0
                \<longrightarrow> pct_ytd s = None))"
  have "\<exists>s. snapshot_row hs jan1 t (?grp t) = Some (Inr s) \<and> ?P t s"
    if "t \<in> set (sort (remdups (map r_ticker prices)))" for t
    using snapshot_zero_reference[OF assms(1) groups_nonempty[OF that], of jan1 t] by blast
  from collect_total[of "sort (remdups (map r_ticker prices))"
        "\<lambda>t. snapshot_row hs jan1 t (?grp t)" ?P, OF this]
  obtain table where t: "build_fact_latest_snapshot hs jan1 prices = Some (Inr table)"
    and all: "list_all2 ?P (sort (remdups (map r_ticker prices))) table"
    unfolding build_fact_latest_snapshot_def using assms(2) by auto
  have "\<forall>s\<in>set table. ?P (s_ticker s) s"
    using all by (induction rule: list_all2_induct) simp_all
  with t show "\<exists>table. build_fact_latest_snapshot hs jan1 prices = Some (Inr table)
     \<and> (\<forall>s\<in>set table. \<exists>g.
          sort_values hs r_date (filter (\<lambda>r. r_ticker r = s_ticker s) prices) = Some g
        \<and> (1 < length g \<and> r_close (g ! (length g - 1 - 1)) = Some 0 \<longrightarrow> pct_1d s = None)
        \<and> (5 < length g \<and> r_close (g ! (length g - 1 - 5)) = Some 0 \<longrightarrow> pct_1w s = None)
        \<and> (21 < length g \<and> r_close (g ! (length g - 1 - 21)) = Some 0 \<longrightarrow> pct_1m s = None)
        \<and> (r_close (last (filter (\<lambda>r. r_date r \<le> jan1 (last_date s)) g)) = Some 0
           \<longrightarrow> pct_ytd s = None))"
    by blast
qed

text \<open>
  Two instruments of one row each, dated 2024-01-08 (day 19730; 1 January 2024 is day 19723).
  Every change is absent. The minimum drawdown of IBM is the drawdown 0 of its only row; GE
  closed at 0, its drawdown is NaN and its minimum drawdown is absent.
\<close>

theorem snapshot_absent_when_history_short_witness:
  "rearranges (\<lambda>v pl pr ts. ts)
   \<and> build_fact_latest_snapshot (\<lambda>v pl pr ts. ts) (\<lambda>d. 19723)
     [\<lparr> r_ticker = ''IBM'', r_date = 19730, r_close = Some 100, r_vol_60 = None,
         r_drawdown_pct = Some 0 \<rparr>,
      \<lparr> r_ticker = ''GE'', r_date = 19730, r_close = Some 0, r_vol_60 = None,
         r_drawdown_pct = None \<rparr>]
   = Some (Inr [\<lparr> s_ticker = ''GE'', last_date = 19730, last_close = Some 0,
              pct_1d = None, pct_1w = None, pct_1m = None, pct_ytd = None,
              s_vol_60 = None, max_dd_1y = None \<rparr>,
          \<lparr> s_ticker = ''IBM'', last_date = 19730, last_close = Some 100,
              pct_1d = None, pct_1w = None, pct_1m = None, pct_ytd = None,
              s_vol_60 = None, max_dd_1y = Some 0 \<rparr>])
   \<and> (\<exists>table. build_fact_latest_snapshot (\<lambda>v pl pr ts. ts) (\<lambda>d. 19723)
          [\<lparr> r_ticker = ''IBM'', r_date = 19730, r_close = Some 100, r_vol_60 = None,
              r_drawdown_pct = Some 0 \<rparr>,
           \<lparr> r_ticker = ''GE'', r_date = 19730, r_close = Some 0, r_vol_60 = None,
              r_drawdown_pct = None \<rparr>] = Some (Inr table)
        \<and> map s_ticker table = [''GE'', ''IBM'']
        \<and> map pct_1d table = [None, None]
        \<and> map pct_1w table = [None, None]
        \<and> map pct_1m table = [None, None]
        \<and> map pct_ytd table = [None, None]
        \<and> map max_dd_1y table = [None, Some 0])"
proof -
  let ?hs = "\<lambda>(v::int list) (pl::nat) (pr::nat) (ts::nat list). ts"
  let ?prices = "[\<lparr> r_ticker = ''IBM'', r_date = 19730, r_close = Some 100, r_vol_60 = None,
         r_drawdown_pct = Some 0 \<rparr>,
      \<lparr> r_ticker = ''GE'', r_date = 19730, r_close = Some 0, r_vol_60 = None,
         r_drawdown_pct = None \<rparr>]"
  have r: "rearranges ?hs" by (simp add: rearranges_def)
  have n: "?prices \<noteq> []" by simp
  have e: "build_fact_latest_snapshot ?hs (\<lambda>d. 19723) ?prices
   = Some (Inr [\<lparr> s_ticker = ''GE'', last_date = 19730, last_close = Some 0,
              pct_1d = None, pct_1w = None, pct_1m = None, pct_ytd = None,
              s_vol_60 = None, max_dd_1y = None \<rparr>,
          \<lparr> s_ticker = ''IBM'', last_date = 19730, last_close = Some 100,
              pct_1d = None, pct_1w = None, pct_1m = None, pct_ytd = None,
              s_vol_60 = None, max_dd_1y = Some 0 \<rparr>])"
    by code_simp
  from snapshot_absent_when_history_short[OF r n, of "\<lambda>d. 19723"]
  obtain table where t: "build_fact_latest_snapshot ?hs (\<lambda>d. 19723) ?prices = Some (Inr table)"
    by blast
  with e have "table = [\<lparr> s_ticker = ''GE'', last_date = 19730, last_close = Some 0,
              pct_1d = None, pct_1w = None, pct_1m = None, pct_ytd = None,
              s_vol_60 = None, max_dd_1y = None \<rparr>,
          \<lparr> s_ticker = ''IBM'', last_date = 19730, last_close = Some 100,
              pct_1d = None, pct_1w = None, pct_1m = None, pct_ytd = None,
              s_vol_60 = None, max_dd_1y = Some 0 \<rparr>]"
    by simp
  with t e r show ?thesis by simp
qed

text \<open>
  A history of one row is too short for every derived field, yet its minimum drawdown is
  present: it is the drawdown of that row, 0 at a new high.
\<close>

theorem one_row_history_drawdown_counterexample:
  "build_fact_latest_snapshot (\<lambda>v pl pr ts. ts) (\<lambda>d. 19723)
     [\<lparr> r_ticker = ''IBM'', r_date = 19730, r_close = Some 100, r_vol_60 = None,
         r_drawdown_pct = Some 0 \<rparr>]
   = Some (Inr [\<lparr> s_ticker = ''IBM'', last_date = 19730, last_close = Some 100,
              pct_1d = None, pct_1w = None, pct_1m = None, pct_ytd = None,
              s_vol_60 = None, max_dd_1y = Some 0 \<rparr>])"
  by code_simp

text \<open>
  IBM with a close of 0 on 2023-12-31 and of 5 on 2024-01-02: the first row is the reference
  of both the 1-observation and the year-to-date change, and both are absent.
\<close>

theorem zero_reference_close_guarded_witness:
  "rearranges (\<lambda>v pl pr ts. ts)
   \<and> build_fact_latest_snapshot (\<lambda>v pl pr ts. ts) (\<lambda>d. 19723)
     [\<lparr> r_ticker = ''IBM'', r_date = 19722, r_close = Some 0, r_vol_60 = None,
         r_drawdown_pct = None \<rparr>,
      \<lparr> r_ticker = ''IBM'', r_date = 19724, r_close = Some 5, r_vol_60 = None,
         r_drawdown_pct = Some 0 \<rparr>]
   = Some (Inr [\<lparr> s_ticker = ''IBM'', last_date = 19724, last_close = Some 5,
              pct_1d = None, pct_1w = None, pct_1m = None, pct_ytd = None,
              s_vol_60 = None, max_dd_1y = Some 0 \<rparr>])
   \<and> sort_values (\<lambda>v pl pr ts. ts) r_date
     [\<lparr> r_ticker = ''IBM'', r_date = 19722, r_close = Some 0, r_vol_60 = None,
         r_drawdown_pct = None \<rparr>,
      \<lparr> r_ticker = ''IBM'', r_date = 19724, r_close = Some 5, r_vol_60 = None,
         r_drawdown_pct = Some 0 \<rparr>]
   = Some [\<lparr> r_ticker = ''IBM'', r_date = 19722, r_close = Some 0, r_vol_60 = None,
         r_drawdown_pct = None \<rparr>,
      \<lparr> r_ticker = ''IBM'', r_date = 19724, r_close = Some 5, r_vol_60 = None,
         r_drawdown_pct = Some 0 \<rparr>]
   \<and> (\<exists>table. build_fact_latest_snapshot (\<lambda>v pl pr ts. ts) (\<lambda>d. 19723)
     [\<lparr> r_ticker = ''IBM'', r_date = 19722, r_close = Some 0, r_vol_60 = None,
         r_drawdown_pct = None \<rparr>,
      \<lparr> r_ticker = ''IBM'', r_date = 19724, r_close = Some 5, r_vol_60 = None,
         r_drawdown_pct = Some 0 \<rparr>] = Some (Inr table)
      \<and> map pct_1d table = [None] \<and> map pct_ytd table = [None])
   \<and> pct_against (Some 5) (Some 0) = Inr None"
proof -
  let ?hs = "\<lambda>(v::int list) (pl::nat) (pr::nat) (ts::nat list). ts"
  let ?prices = "[\<lparr> r_ticker = ''IBM'', r_date = 19722, r_close = Some 0, r_vol_60 = None,
         r_drawdown_pct = None \<rparr>,
      \<lparr> r_ticker = ''IBM'', r_date = 19724, r_close = Some 5, r_vol_60 = None,
         r_drawdown_pct = Some 0 \<rparr>]"
  have r: "rearranges ?hs" by (simp add: rearranges_def)
  have n: "?prices \<noteq> []" by simp
  have e: "build_fact_latest_snapshot ?hs (\<lambda>d. 19723) ?prices
   = Some (Inr [\<lparr> s_ticker = ''IBM'', last_date = 19724, last_close = Some 5,
              pct_1d = None, pct_1w = None, pct_1m = None, pct_ytd = None,
              s_vol_60 = None, max_dd_1y = Some 0 \<rparr>])"
    by code_simp
  have g: "sort_values ?hs r_date ?prices = Some ?prices"
    by code_simp
  note th = zero_reference_close_guarded[OF r n, of "\<lambda>d. 19723"]
  from th have z: "pct_against (Some 5) (Some 0) = Inr None" by blast
  from th obtain table where t: "build_fact_latest_snapshot ?hs (\<lambda>d. 19723) ?prices = Some (Inr table)"
    by blast
  with e have "table = [\<lparr> s_ticker = ''IBM'', last_date = 19724, last_close = Some 5,
              pct_1d = None, pct_1w = None, pct_1m = None, pct_ytd = None,
              s_vol_60 = None, max_dd_1y = Some 0 \<rparr>]"
    by simp
  with t e z r g show ?thesis by simp
qed

section \<open>Properties of the fetch client\<close>

subsection \<open>The rate limiter\<close>

text \<open>
  What \<open>wait\<close> does. It returns no earlier than \<open>min_interval\<close> after the time the
  previous \<open>wait\<close> returned (the limiter's \<open>last_call\<close>), and records its own return time.
  It sleeps \<open>min_interval - (now - last_call)\<close> when that is positive and not at all
  otherwise. A fresh limiter has \<open>last_call = 0\<close>, so its first \<open>wait\<close> does not sleep
  when the monotonic clock reads at least \<open>min_interval\<close>; and with a non-positive
  \<open>min_interval\<close> no \<open>wait\<close> sleeps, the clock being no earlier than \<open>last_call\<close>.
\<close>

lemma wait_blocks_min_interval:
  assumes "wait rl w = (rl', w')"
  shows "last_call rl + min_interval_seconds rl \<le> clock w'
       \<and> clock w \<le> clock w'
       \<and> last_call rl' = clock w'
       \<and> min_interval_seconds rl' = min_interval_seconds rl
       \<and> calls w' = calls w
       \<and> trace w' = trace w @ [Wait (clock w' - clock w)]
       \<and> clock w' - clock w = max 0 (min_interval_seconds rl - (clock w - last_call rl))
       \<and> (\<forall>m. rl = RateLimiter m \<and> m \<le> clock w \<longrightarrow> clock w' = clock w)
       \<and> (min_interval_seconds rl \<le> 0 \<and> last_call rl \<le> clock w \<longrightarrow> clock w' = clock w)"
proof -
  let ?remaining = "min_interval_seconds rl - (clock w - last_call rl)"
  have fresh: "last_call (RateLimiter m) = 0" "min_interval_seconds (RateLimiter m) = m" for m
    by (simp_all add: RateLimiter_def)
  show ?thesis
  proof (cases "?remaining > 0")
    case True
    with assms have "w' = w\<lparr> clock := clock w + ?remaining, trace := trace w @ [Wait ?remaining] \<rparr>"
      and "rl' = rl\<lparr> last_call := clock w + ?remaining \<rparr>"
      by (auto simp: wait_def Let_def)
    with True show ?thesis by (auto simp: fresh)
  next
    case False
    with assms have "w' = w\<lparr> trace := trace w @ [Wait 0] \<rparr>"
      and "rl' = rl\<lparr> last_call := clock w \<rparr>"
      by (auto simp: wait_def Let_def)
    with False show ?thesis by (auto simp: fresh)
  qed
qed

text \<open>
  A limiter of 15 seconds created when the clock reads 100: the first \<open>wait\<close> returns at
  once; a second \<open>wait\<close> entered at 104 sleeps 11 seconds and returns at 115. A limiter
  of 0 seconds does not sleep.
\<close>

lemma wait_blocks_min_interval_example:
  "wait (RateLimiter 15) \<lparr> clock = 100, calls = 0, trace = [] \<rparr>
     = (\<lparr> min_interval_seconds = 15, last_call = 100 \<rparr>,
        \<lparr> clock = 100, calls = 0, trace = [Wait 0] \<rparr>)
   \<and> wait \<lparr> min_interval_seconds = 15, last_call = 100 \<rparr>
           \<lparr> clock = 104, calls = 0, trace = [Wait 0] \<rparr>
     = (\<lparr> min_interval_seconds = 15, last_call = 115 \<rparr>,
        \<lparr> clock = 115, calls = 0, trace = [Wait 0, Wait 11] \<rparr>)
   \<and> wait (RateLimiter 0) \<lparr> clock = 2, calls = 0, trace = [] \<rparr>
     = (\<lparr> min_interval_seconds = 0, last_call = 2 \<rparr>,
        \<lparr> clock = 2, calls = 0, trace = [Wait 0] \<rparr>)
   \<and> last_call \<lparr> min_interval_seconds = 15, last_call = 100 \<rparr>
         + min_interval_seconds \<lparr> min_interval_seconds = 15, last_call = 100 \<rparr>
       \<le> clock \<lparr> clock = 115, calls = 0, trace = [Wait 0, Wait 11] \<rparr>"
proof -
  have 1: "wait (RateLimiter 15) \<lparr> clock = 100, calls = 0, trace = [] \<rparr>
     = (\<lparr> min_interval_seconds = 15, last_call = 100 \<rparr>,
        \<lparr> clock = 100, calls = 0, trace = [Wait 0] \<rparr>)"
    by (simp add: wait_def RateLimiter_def Let_def)
  have 2: "wait \<lparr> min_interval_seconds = 15, last_call = 100 \<rparr>
           \<lparr> clock = 104, calls = 0, trace = [Wait 0] \<rparr>
     = (\<lparr> min_interval_seconds = 15, last_call = 115 \<rparr>,
        \<lparr> clock = 115, calls = 0, trace = [Wait 0, Wait 11] \<rparr>)"
    by (simp add: wait_def Let_def)
  have 3: "wait (RateLimiter 0) \<lparr> clock = 2, calls = 0, trace = [] \<rparr>
     = (\<lparr> min_interval_seconds = 0, last_call = 2 \<rparr>,
        \<lparr> clock = 2, calls = 0, trace = [Wait 0] \<rparr>)"
    by (simp add: wait_def RateLimiter_def Let_def)
  from wait_blocks_min_interval[OF 2] 1 2 3 show ?thesis
    by (intro conjI) (assumption | elim conjE)+
qed

text \<open>
  Claim C8 fails for the first call of a fresh limiter. The limiter starts with
  \<open>_last_call = 0.0\<close> to let the first call through, but \<open>time.monotonic()\<close> counts
  from an unspecified point (the boot of the machine on the usual platforms) and may read
  less than the interval. A fresh limiter of 15 seconds whose first \<open>wait\<close> reads the
  clock at 5 sleeps 10 seconds.
\<close>

theorem first_wait_blocks_counterexample:
  "wait (RateLimiter 15) \<lparr> clock = 5, calls = 0, trace = [] \<rparr>
     = (\<lparr> min_interval_seconds = 15, last_call = 15 \<rparr>,
        \<lparr> clock = 15, calls = 0, trace = [Wait 10] \<rparr>)"
  by (simp add: wait_def RateLimiter_def Let_def)

subsection \<open>Retries of \<open>_request\<close> and of the session\<close>

lemma wait_effect:
  "\<exists>rl w1 d. wait (limiter c) w = (rl, w1) \<and> calls w1 = calls w \<and> trace w1 = trace w @ [Wait d]"
  by (simp add: wait_def Let_def)

lemma delivered_not_retry: "delivered resp \<Longrightarrow> \<not> is_retry r resp"
  by (auto simp: delivered_def is_retry_def status_forcelist_def)

lemma urlopen_delivered:
  assumes "delivered (up (calls w) q)"
  shows "urlopen up q r w
           = (up (calls w) q, w\<lparr> calls := Suc (calls w), trace := trace w @ [Get q] \<rparr>)"
  using delivered_not_retry[OF assms, of r]
  by (subst urlopen.simps) (simp add: Let_def)

lemma session_get_delivered:
  assumes "delivered (up (calls w) q)"
  shows "session_get up c q w
           = (up (calls w) q, w\<lparr> calls := Suc (calls w), trace := trace w @ [Get q] \<rparr>)"
  using urlopen_delivered[where up=up and w=w and q=q, OF assms] by (simp add: session_get_def)

lemma step_throttled:
  assumes "is_throttled (up (calls w) q)" and "a \<noteq> max_retries (cfg c)"
    and "0 \<le> backoff_seconds (cfg c)"
  shows "\<exists>c1 w3 d. request_loop up q (a # rest) c w = request_loop up q rest c1 w3
           \<and> cfg c1 = cfg c \<and> session c1 = session c \<and> calls w3 = Suc (calls w)
           \<and> trace w3 = trace w @ [Wait d, Get q, Backoff (backoff_seconds (cfg c))]"
proof -
  from wait_effect[of c w] obtain rl w1 d where
    w: "wait (limiter c) w = (rl, w1)" "calls w1 = calls w" "trace w1 = trace w @ [Wait d]"
    by blast
  from assms(1) obtain body where
    b: "json_body (up (calls w) q) = Some body" "\<not> has_key ''Information'' body"
       "has_key ''Note'' body" and dl: "delivered (up (calls w1) q)"
    using w(2) by (auto simp: is_throttled_def split: option.splits)
  define w2 where "w2 = w1\<lparr> calls := Suc (calls w1), trace := trace w1 @ [Get q] \<rparr>"
  define w3 where "w3 = w2\<lparr> clock := clock w2 + backoff_seconds (cfg c),
                            trace := trace w2 @ [Backoff (backoff_seconds (cfg c))] \<rparr>"
  have sg: "session_get up (c\<lparr> limiter := rl \<rparr>) q w1 = (up (calls w) q, w2)"
    using session_get_delivered[where up=up and w=w1 and q=q, OF dl] w(2) by (simp add: w2_def)
  have "request_loop up q (a # rest) c w = request_loop up q rest (c\<lparr> limiter := rl \<rparr>) w3"
    using w(1) sg b assms(2,3)
    by (simp add: backoff_sleep_def Let_def w3_def)
  moreover have "calls w3 = Suc (calls w)"
    and "trace w3 = trace w @ [Wait d, Get q, Backoff (backoff_seconds (cfg c))]"
    by (simp_all add: w3_def w2_def w)
  ultimately show ?thesis
    by (intro exI[of _ "c\<lparr> limiter := rl \<rparr>"] exI[of _ w3] exI[of _ d]) simp
qed

lemma step_success:
  assumes "is_success (up (calls w) q)"
  shows "\<exists>c1 w2 d. request_loop up q (a # rest) c w
             = (Inr (the (json_body (up (calls w) q))), c1, w2)
           \<and> cfg c1 = cfg c \<and> session c1 = session c \<and> calls w2 = Suc (calls w)
           \<and> trace w2 = trace w @ [Wait d, Get q]"
proof -
  from wait_effect[of c w] obtain rl w1 d where
    w: "wait (limiter c) w = (rl, w1)" "calls w1 = calls w" "trace w1 = trace w @ [Wait d]"
    by blast
  from assms obtain body where
    b: "json_body (up (calls w) q) = Some body" "\<not> has_key ''Information'' body"
       "status_code (up (calls w) q) \<noteq> 429" "\<not> has_key ''Note'' body"
       "\<not> has_key ''Error Message'' body" and dl: "delivered (up (calls w1) q)"
    using w(2) by (auto simp: is_success_def split: option.splits)
  define w2 where "w2 = w1\<lparr> calls := Suc (calls w1), trace := trace w1 @ [Get q] \<rparr>"
  have sg: "session_get up (c\<lparr> limiter := rl \<rparr>) q w1 = (up (calls w) q, w2)"
    using session_get_delivered[where up=up and w=w1 and q=q, OF dl] w(2) by (simp add: w2_def)
  have "request_loop up q (a # rest) c w
          = (Inr (the (json_body (up (calls w) q))), c\<lparr> limiter := rl \<rparr>, w2)"
    using w(1) sg b by (simp add: Let_def)
  moreover have "calls w2 = Suc (calls w)" and "trace w2 = trace w @ [Wait d, Get q]"
    by (simp_all add: w2_def w)
  ultimately show ?thesis
    by (intro exI[of _ "c\<lparr> limiter := rl \<rparr>"] exI[of _ w2] exI[of _ d]) simp
qed

lemma step_exhausted:
  assumes "is_throttled (up (calls w) q)" and "a = max_retries (cfg c)"
  shows "\<exists>c1 w2 d. request_loop up q (a # rest) c w
             = (Inl (AlphaVantageError
                   (get_or (the (json_body (up (calls w) q))) ''Note'' (JString ''Rate limited''))),
                c1, w2)
           \<and> cfg c1 = cfg c \<and> session c1 = session c \<and> calls w2 = Suc (calls w)
           \<and> trace w2 = trace w @ [Wait d, Get q]"
proof -
  from wait_effect[of c w] obtain rl w1 d where
    w: "wait (limiter c) w = (rl, w1)" "calls w1 = calls w" "trace w1 = trace w @ [Wait d]"
    by blast
  from assms(1) obtain body where
    b: "json_body (up (calls w) q) = Some body" "\<not> has_key ''Information'' body"
       "has_key ''Note'' body" and dl: "delivered (up (calls w1) q)"
    using w(2) by (auto simp: is_throttled_def split: option.splits)
  define w2 where "w2 = w1\<lparr> calls := Suc (calls w1), trace := trace w1 @ [Get q] \<rparr>"
  have sg: "session_get up (c\<lparr> limiter := rl \<rparr>) q w1 = (up (calls w) q, w2)"
    using session_get_delivered[where up=up and w=w1 and q=q, OF dl] w(2) by (simp add: w2_def)
  have "request_loop up q (a # rest) c w
          = (Inl (AlphaVantageError
                   (get_or (the (json_body (up (calls w) q))) ''Note'' (JString ''Rate limited''))),
             c\<lparr> limiter := rl \<rparr>, w2)"
    using w(1) sg b assms(2) by (simp add: Let_def)
  moreover have "calls w2 = Suc (calls w)" and "trace w2 = trace w @ [Wait d, Get q]"
    by (simp_all add: w2_def w)
  ultimately show ?thesis
    by (intro exI[of _ "c\<lparr> limiter := rl \<rparr>"] exI[of _ w2] exI[of _ d]) simp
qed

lemma loop_success:
  assumes "0 \<le> backoff_seconds (cfg c)"
    and "k < length as"
    and "\<forall>j<k. as ! j \<noteq> max_retries (cfg c)"
    and "\<forall>j<k. is_throttled (up (calls w + j) q)"
    and "is_success (up (calls w + k) q)"
  shows "\<exists>c' w' new. request_loop up q as c w
             = (Inr (the (json_body (up (calls w + k) q))), c', w')
           \<and> cfg c' = cfg c \<and> calls w' = calls w + Suc k
           \<and> trace w' = trace w @ new
           \<and> map erase new
               = concat (replicate k [Wait 0, Get q, Backoff (backoff_seconds (cfg c))])
                 @ [Wait 0, Get q]"
  using assms
proof (induction k arbitrary: as c w)
  case 0
  then obtain a rest where as: "as = a # rest" by (cases as) auto
  from 0 have "is_success (up (calls w) q)" by simp
  from step_success[where up=up and w=w and q=q and a=a and rest=rest and c=c, OF this] as
  show ?case by auto
next
  case (Suc k)
  then obtain a rest where as: "as = a # rest" by (cases as) auto
  from Suc.prems as have a: "a \<noteq> max_retries (cfg c)" by auto
  from Suc.prems have t: "is_throttled (up (calls w) q)" by force
  from step_throttled[where up=up and w=w and q=q and a=a and rest=rest and c=c,
      OF t a Suc.prems(1)]
  obtain c1 w3 d where
    s: "request_loop up q (a # rest) c w = request_loop up q rest c1 w3"
       "cfg c1 = cfg c" "calls w3 = Suc (calls w)"
       "trace w3 = trace w @ [Wait d, Get q, Backoff (backoff_seconds (cfg c))]"
    by blast
  have 1: "0 \<le> backoff_seconds (cfg c1)" using Suc.prems(1) s by simp
  have 2: "k < length rest" using Suc.prems(2) as by simp
  have 3: "\<forall>j<k. rest ! j \<noteq> max_retries (cfg c1)"
    using Suc.prems(3) as s by auto
  have 4: "\<forall>j<k. is_throttled (up (calls w3 + j) q)"
    using Suc.prems(4) s by (metis Suc_less_eq add_Suc add_Suc_right)
  have 5: "is_success (up (calls w3 + k) q)"
    using Suc.prems(5) s by simp
  from Suc.IH[OF 1 2 3 4 5] obtain c' w' new where
    r: "request_loop up q rest c1 w3 = (Inr (the (json_body (up (calls w3 + k) q))), c', w')"
       "cfg c' = cfg c1" "calls w' = calls w3 + Suc k" "trace w' = trace w3 @ new"
       "map erase new
          = concat (replicate k [Wait 0, Get q, Backoff (backoff_seconds (cfg c1))])
            @ [Wait 0, Get q]"
    by blast
  show ?case
    using r s as
    by (intro exI[of _ c'] exI[of _ w']
          exI[of _ "[Wait d, Get q, Backoff (backoff_seconds (cfg c))] @ new"]) simp
qed

lemma loop_exhausted:
  assumes "0 \<le> backoff_seconds (cfg c)"
    and "k < length as"
    and "\<forall>j<k. as ! j \<noteq> max_retries (cfg c)"
    and "as ! k = max_retries (cfg c)"
    and "\<forall>j<Suc k. is_throttled (up (calls w + j) q)"
  shows "\<exists>c' w' new. request_loop up q as c w
             = (Inl (AlphaVantageError
                   (get_or (the (json_body (up (calls w + k) q))) ''Note''
                      (JString ''Rate limited''))), c', w')
           \<and> cfg c' = cfg c \<and> calls w' = calls w + Suc k
           \<and> trace w' = trace w @ new
           \<and> map erase new
               = concat (replicate k [Wait 0, Get q, Backoff (backoff_seconds (cfg c))])
                 @ [Wait 0, Get q]"
  using assms
proof (induction k arbitrary: as c w)
  case 0
  then obtain a rest where as: "as = a # rest" by (cases as) auto
  from 0 have t: "is_throttled (up (calls w) q)" by simp
  from 0 as have a: "a = max_retries (cfg c)" by simp
  from step_exhausted[where up=up and w=w and q=q and a=a and rest=rest and c=c, OF t a] as
  show ?case by auto
next
  case (Suc k)
  then obtain a rest where as: "as = a # rest" by (cases as) auto
  from Suc.prems as have a: "a \<noteq> max_retries (cfg c)" by auto
  from Suc.prems have t: "is_throttled (up (calls w) q)" by force
  from step_throttled[where up=up and w=w and q=q and a=a and rest=rest and c=c,
      OF t a Suc.prems(1)]
  obtain c1 w3 d where
    s: "request_loop up q (a # rest) c w = request_loop up q rest c1 w3"
       "cfg c1 = cfg c" "calls w3 = Suc (calls w)"
       "trace w3 = trace w @ [Wait d, Get q, Backoff (backoff_seconds (cfg c))]"
    by blast
  have 1: "0 \<le> backoff_seconds (cfg c1)" using Suc.prems(1) s by simp
  have 2: "k < length rest" using Suc.prems(2) as by simp
  have 3: "\<forall>j<k. rest ! j \<noteq> max_retries (cfg c1)"
    using Suc.prems(3) as s by auto
  have 4: "rest ! k = max_retries (cfg c1)"
    using Suc.prems(4) as s by simp
  have 5: "\<forall>j<Suc k. is_throttled (up (calls w3 + j) q)"
    using Suc.prems(5) s by (metis Suc_less_eq add_Suc add_Suc_right)
  from Suc.IH[OF 1 2 3 4 5] obtain c' w' new where
    r: "request_loop up q rest c1 w3
          = (Inl (AlphaVantageError
                   (get_or (the (json_body (up (calls w3 + k) q))) ''Note''
                      (JString ''Rate limited''))), c', w')"
       "cfg c' = cfg c1" "calls w' = calls w3 + Suc k" "trace w' = trace w3 @ new"
       "map erase new
          = concat (replicate k [Wait 0, Get q, Backoff (backoff_seconds (cfg c1))])
            @ [Wait 0, Get q]"
    by blast
  show ?case
    using r s as
    by (intro exI[of _ c'] exI[of _ w']
          exI[of _ "[Wait d, Get q, Backoff (backoff_seconds (cfg c))] @ new"]) simp
qed

lemma attempt_numbers:
  "length [1..int M] = M" "j < M \<Longrightarrow> [1..int M] ! j = 1 + int j"
  by simp_all

text \<open>The adapter swallows answers of status 429 while it has retries left.\<close>

lemma retry_sleep_effect:
  "\<exists>d. calls (retry_sleep r resp w) = calls w \<and> trace (retry_sleep r resp w) = trace w @ [Resend d]"
  by (simp add: retry_sleep_def Let_def)

lemma urlopen_absorbs:
  assumes "\<forall>j<k. status_code (up (calls w + j) q) \<in> set status_forcelist"
    and "int k \<le> retry_total r"
    and "delivered (up (calls w + k) q)"
  shows "\<exists>w' new. urlopen up q r w = (up (calls w + k) q, w')
           \<and> calls w' = calls w + Suc k
           \<and> trace w' = trace w @ new
           \<and> map erase new = Get q # concat (replicate k [Resend 0, Get q])"
  using assms
proof (induction k arbitrary: r w)
  case 0
  then have "delivered (up (calls w) q)" by simp
  from urlopen_delivered[where up=up and w=w and q=q and r=r, OF this] show ?case by simp
next
  case (Suc k)
  define resp where "resp = up (calls w) q"
  define w1 where "w1 = w\<lparr> calls := Suc (calls w), trace := trace w @ [Get q] \<rparr>"
  define r' where "r' = \<lparr> retry_total = retry_total r - 1, retry_history = Suc (retry_history r) \<rparr>"
  define w2 where "w2 = retry_sleep r' resp w1"
  from Suc.prems(1) have "status_code resp \<in> set status_forcelist"
    unfolding resp_def by force
  then have ir: "is_retry r resp" by (simp add: is_retry_def)
  have inc: "increment r = Some r'"
    using Suc.prems(2) by (simp add: increment_def Let_def r'_def)
  have u: "urlopen up q r w = urlopen up q r' w2"
    using ir inc unfolding resp_def w1_def w2_def
    by (subst urlopen.simps) (simp add: Let_def)
  from retry_sleep_effect[of r' resp w1] obtain d where
    rs: "calls w2 = Suc (calls w)" "trace w2 = trace w @ [Get q, Resend d]"
    unfolding w2_def by (auto simp: w1_def)
  have 1: "\<forall>j<k. status_code (up (calls w2 + j) q) \<in> set status_forcelist"
    using Suc.prems(1) rs(1) by (metis Suc_less_eq add_Suc add_Suc_right)
  have 2: "int k \<le> retry_total r'" using Suc.prems(2) by (simp add: r'_def)
  have 3: "delivered (up (calls w2 + k) q)" using Suc.prems(3) rs(1) by simp
  from Suc.IH[where w=w2 and r=r', OF 1 2 3] obtain w' new where
    r: "urlopen up q r' w2 = (up (calls w2 + k) q, w')"
       "calls w' = calls w2 + Suc k" "trace w' = trace w2 @ new"
       "map erase new = Get q # concat (replicate k [Resend 0, Get q])"
    by (elim exE conjE)
  show ?case
    using u r rs
    by (intro exI[of _ w'] exI[of _ "[Get q, Resend d] @ new"]) simp
qed

lemma request_absorbs:
  assumes "1 \<le> max_retries (cfg c)"
    and "\<forall>j<k. status_code (up (calls w + j) q) \<in> set status_forcelist"
    and "int k \<le> retry_total (session c)"
    and "is_success (up (calls w + k) q)"
  shows "\<exists>c' w' new. request_loop up q [1..max_retries (cfg c)] c w
             = (Inr (the (json_body (up (calls w + k) q))), c', w')
           \<and> calls w' = calls w + Suc k
           \<and> trace w' = trace w @ new
           \<and> map erase new = [Wait 0, Get q] @ concat (replicate k [Resend 0, Get q])"
proof -
  from assms(1) have as: "[1..max_retries (cfg c)] = 1 # [2..max_retries (cfg c)]"
    by (simp add: upto_rec1)
  from wait_effect[of c w] obtain rl w1 d where
    w: "wait (limiter c) w = (rl, w1)" "calls w1 = calls w" "trace w1 = trace w @ [Wait d]"
    by blast
  from assms(4) obtain body where
    b: "json_body (up (calls w + k) q) = Some body" "\<not> has_key ''Information'' body"
       "status_code (up (calls w + k) q) \<noteq> 429" "\<not> has_key ''Note'' body"
       "\<not> has_key ''Error Message'' body" and dl: "delivered (up (calls w1 + k) q)"
    using w(2) by (auto simp: is_success_def split: option.splits)
  have 1: "\<forall>j<k. status_code (up (calls w1 + j) q) \<in> set status_forcelist"
    using assms(2) w(2) by simp
  from urlopen_absorbs[where up=up and w=w1 and q=q and k=k and r="session c", OF 1 assms(3) dl] obtain w2 new where
    u: "urlopen up q (session c) w1 = (up (calls w + k) q, w2)"
       "calls w2 = calls w + Suc k" "trace w2 = trace w1 @ new"
       "map erase new = Get q # concat (replicate k [Resend 0, Get q])"
    using w(2) by auto
  have sg: "session_get up (c\<lparr> limiter := rl \<rparr>) q w1 = (up (calls w + k) q, w2)"
    using u(1) by (simp add: session_get_def)
  have "request_loop up q (1 # [2..max_retries (cfg c)]) c w
          = (Inr (the (json_body (up (calls w + k) q))), c\<lparr> limiter := rl \<rparr>, w2)"
    using w(1) sg b by (simp add: Let_def)
  then show ?thesis
    unfolding as using u w
    by (intro exI[of _ "c\<lparr> limiter := rl \<rparr>"] exI[of _ w2] exI[of _ "Wait d # new"]) simp
qed

text \<open>With no retry left the adapter hands the last answer on, whatever its status.\<close>

lemma urlopen_exhausts:
  assumes "\<forall>j<Suc T. status_code (up (calls w + j) q) \<in> set status_forcelist"
    and "retry_total r = int T"
  shows "\<exists>w' new. urlopen up q r w = (up (calls w + T) q, w')
           \<and> calls w' = calls w + Suc T
           \<and> trace w' = trace w @ new
           \<and> map erase new = Get q # concat (replicate T [Resend 0, Get q])"
  using assms
proof (induction T arbitrary: r w)
  case 0
  define resp where "resp = up (calls w) q"
  from 0 have "status_code resp \<in> set status_forcelist" unfolding resp_def by simp
  then have ir: "is_retry r resp" by (simp add: is_retry_def)
  have inc: "increment r = None" using 0 by (simp add: increment_def Let_def)
  have "urlopen up q r w = (up (calls w) q, w\<lparr> calls := Suc (calls w), trace := trace w @ [Get q] \<rparr>)"
    using ir inc unfolding resp_def by (subst urlopen.simps) (simp add: Let_def)
  then show ?case by simp
next
  case (Suc T)
  define resp where "resp = up (calls w) q"
  define w1 where "w1 = w\<lparr> calls := Suc (calls w), trace := trace w @ [Get q] \<rparr>"
  define r' where "r' = \<lparr> retry_total = retry_total r - 1, retry_history = Suc (retry_history r) \<rparr>"
  define w2 where "w2 = retry_sleep r' resp w1"
  from Suc.prems(1) have "status_code resp \<in> set status_forcelist"
    unfolding resp_def by force
  then have ir: "is_retry r resp" by (simp add: is_retry_def)
  have inc: "increment r = Some r'"
    using Suc.prems(2) by (simp add: increment_def Let_def r'_def)
  have u: "urlopen up q r w = urlopen up q r' w2"
    using ir inc unfolding resp_def w1_def w2_def
    by (subst urlopen.simps) (simp add: Let_def)
  from retry_sleep_effect[of r' resp w1] obtain d where
    rs: "calls w2 = Suc (calls w)" "trace w2 = trace w @ [Get q, Resend d]"
    unfolding w2_def by (auto simp: w1_def)
  have 1: "\<forall>j<Suc T. status_code (up (calls w2 + j) q) \<in> set status_forcelist"
    using Suc.prems(1) rs(1) by (metis Suc_less_eq add_Suc add_Suc_right)
  have 2: "retry_total r' = int T" using Suc.prems(2) by (simp add: r'_def)
  from Suc.IH[where w=w2 and r=r', OF 1 2] obtain w' new where
    r: "urlopen up q r' w2 = (up (calls w2 + T) q, w')"
       "calls w' = calls w2 + Suc T" "trace w' = trace w2 @ new"
       "map erase new = Get q # concat (replicate T [Resend 0, Get q])"
    by (elim exE conjE)
  show ?case
    using u r rs
    by (intro exI[of _ w'] exI[of _ "[Get q, Resend d] @ new"]) simp
qed

lemma rate_limited_status: "is_rate_limited r \<Longrightarrow> status_code r \<in> set status_forcelist"
  by (simp add: is_rate_limited_def status_forcelist_def)


lemma step_rate_limited:
  assumes "\<forall>j<Suc T. is_rate_limited (up (calls w + j) q)"
    and "retry_total (session c) = int T"
    and "a \<noteq> max_retries (cfg c)"
    and "0 \<le> backoff_seconds (cfg c)"
  shows "\<exists>c1 w3 new. request_loop up q (a # rest) c w = request_loop up q rest c1 w3
           \<and> cfg c1 = cfg c \<and> session c1 = session c \<and> calls w3 = calls w + Suc T
           \<and> trace w3 = trace w @ new
           \<and> map erase new = attempt_trace q T @ [Backoff (backoff_seconds (cfg c))]"
proof -
  from wait_effect[of c w] obtain rl w1 d where
    w: "wait (limiter c) w = (rl, w1)" "calls w1 = calls w" "trace w1 = trace w @ [Wait d]"
    by blast
  have 1: "\<forall>j<Suc T. status_code (up (calls w1 + j) q) \<in> set status_forcelist"
    using assms(1) w(2) rate_limited_status by simp
  from urlopen_exhausts[where up=up and w=w1 and q=q and T=T and r="session c", OF 1 assms(2)]
  obtain w2 new where
    u: "urlopen up q (session c) w1 = (up (calls w + T) q, w2)"
       "calls w2 = calls w + Suc T" "trace w2 = trace w1 @ new"
       "map erase new = Get q # concat (replicate T [Resend 0, Get q])"
    using w(2) by auto
  from assms(1) have "is_rate_limited (up (calls w + T) q)" by simp
  then obtain body where
    b: "json_body (up (calls w + T) q) = Some body" "\<not> has_key ''Information'' body"
       "status_code (up (calls w + T) q) = 429"
    by (auto simp: is_rate_limited_def split: option.splits)
  define w3 where "w3 = w2\<lparr> clock := clock w2 + backoff_seconds (cfg c),
                            trace := trace w2 @ [Backoff (backoff_seconds (cfg c))] \<rparr>"
  have sg: "session_get up (c\<lparr> limiter := rl \<rparr>) q w1 = (up (calls w + T) q, w2)"
    using u(1) by (simp add: session_get_def)
  have "request_loop up q (a # rest) c w = request_loop up q rest (c\<lparr> limiter := rl \<rparr>) w3"
    using w(1) sg b assms(3,4)
    by (simp add: backoff_sleep_def Let_def w3_def)
  moreover have "calls w3 = calls w + Suc T"
    and "trace w3 = trace w @ (Wait d # new @ [Backoff (backoff_seconds (cfg c))])"
    by (simp_all add: w3_def u w)
  moreover have "map erase (Wait d # new @ [Backoff (backoff_seconds (cfg c))])
                   = attempt_trace q T @ [Backoff (backoff_seconds (cfg c))]"
    using u(4) by (simp add: attempt_trace_def)
  ultimately show ?thesis
    by (intro exI[of _ "c\<lparr> limiter := rl \<rparr>"] exI[of _ w3]
          exI[of _ "Wait d # new @ [Backoff (backoff_seconds (cfg c))]"]) simp
qed

lemma step_rate_limited_last:
  assumes "\<forall>j<Suc T. is_rate_limited (up (calls w + j) q)"
    and "retry_total (session c) = int T"
    and "a = max_retries (cfg c)"
  shows "\<exists>c1 w2 new. request_loop up q (a # rest) c w
             = (Inl (AlphaVantageError
                   (get_or (the (json_body (up (calls w + T) q))) ''Note'' (JString ''Rate limited''))),
                c1, w2)
           \<and> calls w2 = calls w + Suc T
           \<and> trace w2 = trace w @ new
           \<and> map erase new = attempt_trace q T"
proof -
  from wait_effect[of c w] obtain rl w1 d where
    w: "wait (limiter c) w = (rl, w1)" "calls w1 = calls w" "trace w1 = trace w @ [Wait d]"
    by blast
  have 1: "\<forall>j<Suc T. status_code (up (calls w1 + j) q) \<in> set status_forcelist"
    using assms(1) w(2) rate_limited_status by simp
  from urlopen_exhausts[where up=up and w=w1 and q=q and T=T and r="session c", OF 1 assms(2)]
  obtain w2 new where
    u: "urlopen up q (session c) w1 = (up (calls w + T) q, w2)"
       "calls w2 = calls w + Suc T" "trace w2 = trace w1 @ new"
       "map erase new = Get q # concat (replicate T [Resend 0, Get q])"
    using w(2) by auto
  from assms(1) have "is_rate_limited (up (calls w + T) q)" by simp
  then obtain body where
    b: "json_body (up (calls w + T) q) = Some body" "\<not> has_key ''Information'' body"
       "status_code (up (calls w + T) q) = 429"
    by (auto simp: is_rate_limited_def split: option.splits)
  have sg: "session_get up (c\<lparr> limiter := rl \<rparr>) q w1 = (up (calls w + T) q, w2)"
    using u(1) by (simp add: session_get_def)
  have "request_loop up q (a # rest) c w
          = (Inl (AlphaVantageError
                   (get_or (the (json_body (up (calls w + T) q))) ''Note'' (JString ''Rate limited''))),
             c\<lparr> limiter := rl \<rparr>, w2)"
    using w(1) sg b assms(3) by (simp add: Let_def)
  moreover have "trace w2 = trace w @ (Wait d # new)" by (simp add: u w)
  moreover have "map erase (Wait d # new) = attempt_trace q T"
    using u(4) by (simp add: attempt_trace_def)
  ultimately show ?thesis
    using u(2) by (intro exI[of _ "c\<lparr> limiter := rl \<rparr>"] exI[of _ w2] exI[of _ "Wait d # new"]) simp
qed

lemma loop_rate_limited:
  assumes "0 \<le> backoff_seconds (cfg c)"
    and "retry_total (session c) = int T"
    and "k < length as"
    and "\<forall>j<k. as ! j \<noteq> max_retries (cfg c)"
    and "as ! k = max_retries (cfg c)"
    and "\<forall>j<Suc k * Suc T. is_rate_limited (up (calls w + j) q)"
  shows "\<exists>c' w' new. request_loop up q as c w
             = (Inl (AlphaVantageError
                   (get_or (the (json_body (up (calls w + (k * Suc T + T)) q))) ''Note''
                      (JString ''Rate limited''))), c', w')
           \<and> calls w' = calls w + Suc k * Suc T
           \<and> trace w' = trace w @ new
           \<and> map erase new
               = concat (replicate k (attempt_trace q T @ [Backoff (backoff_seconds (cfg c))]))
                 @ attempt_trace q T"
  using assms
proof (induction k arbitrary: as c w)
  case 0
  then obtain a rest where as: "as = a # rest" by (cases as) auto
  from 0 have t: "\<forall>j<Suc T. is_rate_limited (up (calls w + j) q)" by simp
  from 0 as have a: "a = max_retries (cfg c)" by simp
  from step_rate_limited_last[where up=up and w=w and q=q and a=a and rest=rest and c=c and T=T,
      OF t "0.prems"(2) a] as
  show ?case by auto
next
  case (Suc k)
  then obtain a rest where as: "as = a # rest" by (cases as) auto
  from Suc.prems as have a: "a \<noteq> max_retries (cfg c)" by auto
  have t: "\<forall>j<Suc T. is_rate_limited (up (calls w + j) q)"
  proof (intro allI impI)
    fix j assume "j < Suc T"
    then have "j < Suc (Suc k) * Suc T" by (simp add: trans_less_add1)
    with Suc.prems(6) show "is_rate_limited (up (calls w + j) q)" by blast
  qed
  from step_rate_limited[where up=up and w=w and q=q and a=a and rest=rest and c=c and T=T,
      OF t Suc.prems(2) a Suc.prems(1)]
  obtain c1 w3 new1 where
    s: "request_loop up q (a # rest) c w = request_loop up q rest c1 w3"
       "cfg c1 = cfg c" "session c1 = session c" "calls w3 = calls w + Suc T"
       "trace w3 = trace w @ new1"
       "map erase new1 = attempt_trace q T @ [Backoff (backoff_seconds (cfg c))]"
    by (elim exE conjE)
  have 1: "0 \<le> backoff_seconds (cfg c1)" using Suc.prems(1) s by simp
  have 2: "retry_total (session c1) = int T" using Suc.prems(2) s by simp
  have 3: "k < length rest" using Suc.prems(3) as by simp
  have 4: "\<forall>j<k. rest ! j \<noteq> max_retries (cfg c1)"
    using Suc.prems(4) as s by auto
  have 5: "rest ! k = max_retries (cfg c1)"
    using Suc.prems(5) as s by simp
  have 6: "\<forall>j<Suc k * Suc T. is_rate_limited (up (calls w3 + j) q)"
  proof (intro allI impI)
    fix j assume "j < Suc k * Suc T"
    then have "Suc T + j < Suc (Suc k) * Suc T" by simp
    with Suc.prems(6) have "is_rate_limited (up (calls w + (Suc T + j)) q)" by blast
    then show "is_rate_limited (up (calls w3 + j) q)" using s(4) by (simp add: add.assoc)
  qed
  from Suc.IH[where as=rest and c=c1 and w=w3, OF 1 2 3 4 5 6] obtain c' w' new where
    r: "request_loop up q rest c1 w3
          = (Inl (AlphaVantageError
                   (get_or (the (json_body (up (calls w3 + (k * Suc T + T)) q))) ''Note''
                      (JString ''Rate limited''))), c', w')"
       "calls w' = calls w3 + Suc k * Suc T" "trace w' = trace w3 @ new"
       "map erase new
          = concat (replicate k (attempt_trace q T @ [Backoff (backoff_seconds (cfg c1))]))
            @ attempt_trace q T"
    by (elim exE conjE)
  have i: "calls w3 + (k * Suc T + T) = calls w + (Suc k * Suc T + T)"
    using s(4) by simp
  have e1: "request_loop up q as c w
          = (Inl (AlphaVantageError
                   (get_or (the (json_body (up (calls w + (Suc k * Suc T + T)) q))) ''Note''
                      (JString ''Rate limited''))), c', w')"
    unfolding as s(1) r(1) i by (rule refl)
  have e2: "calls w' = calls w + Suc (Suc k) * Suc T" using r(2) s(4) by simp
  have e3: "trace w' = trace w @ (new1 @ new)" using r(3) s(5) by simp
  have e4: "map erase (new1 @ new)
          = concat (replicate (Suc k) (attempt_trace q T @ [Backoff (backoff_seconds (cfg c))]))
            @ attempt_trace q T"
    using s(6) r(4) s(2) by simp
  from e1 e2 e3 e4 show ?case
    by (intro exI[of _ c'] exI[of _ w'] exI[of _ "new1 @ new"] conjI)
qed

text \<open>
  Claim C4, as the code has it, for a maximum of \<open>M\<close> attempts, a non-negative back-off
  and the session as \<open>__post_init__\<close> mounts it; let \<open>1 \<le> N \<le> M\<close>.

  Throttled by the body: if the first \<open>N - 1\<close> answers carry the key "Note" (JSON objects
  without the key "Information", with a status the session hands on) and answer \<open>N\<close> is a
  success, \<open>_request\<close> returns its body after exactly \<open>N\<close> requests, each after a
  \<open>RateLimiter.wait\<close>, with one back-off sleep between two attempts. If all \<open>M\<close> answers
  are throttled so, \<open>_request\<close> raises \<open>AlphaVantageError\<close> with the "Note" of the last
  one, after \<open>M\<close> requests and \<open>M - 1\<close> back-off sleeps.

  Throttled by the status: if the first \<open>N - 1\<close> answers have status 429 and answer \<open>N\<close>
  is a success, the session's adapter sends the request again by itself, and \<open>_request\<close>
  returns the body after one \<open>RateLimiter.wait\<close>, \<open>N\<close> requests and no back-off sleep of
  its own. If every answer has status 429, with a JSON object without "Information" as its
  body, each attempt of \<open>_request\<close> takes \<open>M + 1\<close> requests, and after \<open>M\<close> attempts
  and \<open>M - 1\<close> back-off sleeps \<open>_request\<close> raises \<open>AlphaVantageError\<close> with the "Note"
  of the last answer, "Rate limited" when it has none.
\<close>

theorem request_retries_when_throttled:
  assumes "max_retries (cfg c) = int M" and "1 \<le> N" and "N \<le> M"
    and "0 \<le> backoff_seconds (cfg c)"
    and "session c = Retry (max_retries (cfg c))"
    and "q = dict_set ''apikey'' (alpha_vantage_api_key (cfg c)) params"
  shows "((\<forall>j<N - 1. is_throttled (up (calls w + j) q)) \<and> is_success (up (calls w + (N - 1)) q) \<longrightarrow>
           (\<exists>c' w' new. request up params c w
                = (Inr (the (json_body (up (calls w + (N - 1)) q))), c', w')
              \<and> calls w' = calls w + N
              \<and> trace w' = trace w @ new
              \<and> map erase new
                  = concat (replicate (N - 1) [Wait 0, Get q, Backoff (backoff_seconds (cfg c))])
                    @ [Wait 0, Get q]))
       \<and> ((\<forall>j<M. is_throttled (up (calls w + j) q)) \<longrightarrow>
           (\<exists>c' w' new. request up params c w
                = (Inl (AlphaVantageError
                      (get_or (the (json_body (up (calls w + (M - 1)) q))) ''Note''
                         (JString ''Rate limited''))), c', w')
              \<and> calls w' = calls w + M
              \<and> trace w' = trace w @ new
              \<and> map erase new
                  = concat (replicate (M - 1) [Wait 0, Get q, Backoff (backoff_seconds (cfg c))])
                    @ [Wait 0, Get q]))
       \<and> ((\<forall>j<N - 1. status_code (up (calls w + j) q) = 429) \<and> is_success (up (calls w + (N - 1)) q) \<longrightarrow>
           (\<exists>c' w' new. request up params c w
                = (Inr (the (json_body (up (calls w + (N - 1)) q))), c', w')
              \<and> calls w' = calls w + N
              \<and> trace w' = trace w @ new
              \<and> map erase new
                  = [Wait 0, Get q] @ concat (replicate (N - 1) [Resend 0, Get q])))
       \<and> ((\<forall>j<M * Suc M. is_rate_limited (up (calls w + j) q)) \<longrightarrow>
           (\<exists>c' w' new. request up params c w
                = (Inl (AlphaVantageError
                      (get_or (the (json_body (up (calls w + (M * Suc M - 1)) q))) ''Note''
                         (JString ''Rate limited''))), c', w')
              \<and> calls w' = calls w + M * Suc M
              \<and> trace w' = trace w @ new
              \<and> map erase new
                  = concat (replicate (M - 1)
                      ([Wait 0, Get q] @ concat (replicate M [Resend 0, Get q]) @ [Backoff (backoff_seconds (cfg c))]))
                    @ [Wait 0, Get q] @ concat (replicate M [Resend 0, Get q])))"
proof (intro conjI impI)
  let ?as = "[1..int M]"
  let ?b = "backoff_seconds (cfg c)"
  have r: "request up params c w = request_loop up q ?as c w"
    using assms(1,6) by (simp add: request_def)
  have len: "N - 1 < length ?as" using assms(2,3) by simp
  have lenM: "M - 1 < length ?as" using assms(2,3) by simp
  have early: "\<forall>j<N - 1. ?as ! j \<noteq> max_retries (cfg c)"
    using assms(1,2,3) by (auto simp: attempt_numbers)
  have earlyM: "\<forall>j<M - 1. ?as ! j \<noteq> max_retries (cfg c)"
    using assms(1,2,3) by (auto simp: attempt_numbers)
  have lastn: "?as ! (M - 1) = max_retries (cfg c)"
    using assms(1,2,3) by (simp add: attempt_numbers)
  have tot: "retry_total (session c) = int M"
    using assms(1,5) by (simp add: Retry_def)
  {
    assume a: "(\<forall>j<N - 1. is_throttled (up (calls w + j) q)) \<and> is_success (up (calls w + (N - 1)) q)"
    from loop_success[where up=up and q=q and w=w and c=c and k="N - 1" and as="?as",
        OF assms(4) len early a[THEN conjunct1] a[THEN conjunct2]]
    show "(\<exists>c' w' new. request up params c w
                = (Inr (the (json_body (up (calls w + (N - 1)) q))), c', w')
              \<and> calls w' = calls w + N
              \<and> trace w' = trace w @ new
              \<and> map erase new
                  = concat (replicate (N - 1) [Wait 0, Get q, Backoff (backoff_seconds (cfg c))])
                    @ [Wait 0, Get q])"
      using assms(2) unfolding r by auto
  }
  {
    assume a: "(\<forall>j<M. is_throttled (up (calls w + j) q))"
    have all: "\<forall>j<Suc (M - 1). is_throttled (up (calls w + j) q)"
      using a assms(2,3) by simp
    from loop_exhausted[where up=up and q=q and w=w and c=c and k="M - 1" and as="?as",
        OF assms(4) lenM earlyM lastn all]
    show "(\<exists>c' w' new. request up params c w
                = (Inl (AlphaVantageError
                      (get_or (the (json_body (up (calls w + (M - 1)) q))) ''Note''
                         (JString ''Rate limited''))), c', w')
              \<and> calls w' = calls w + M
              \<and> trace w' = trace w @ new
              \<and> map erase new
                  = concat (replicate (M - 1) [Wait 0, Get q, Backoff (backoff_seconds (cfg c))])
                    @ [Wait 0, Get q])"
      using assms(2,3) unfolding r by auto
  }
  {
    assume a: "(\<forall>j<N - 1. status_code (up (calls w + j) q) = 429) \<and> is_success (up (calls w + (N - 1)) q)"
    have 1: "1 \<le> max_retries (cfg c)" using assms(1,2,3) by simp
    have 2: "\<forall>j<N - 1. status_code (up (calls w + j) q) \<in> set status_forcelist"
      using a by (simp add: status_forcelist_def)
    have 3: "int (N - 1) \<le> retry_total (session c)" using tot assms(2,3) by simp
    from request_absorbs[where up=up and q=q and w=w and c=c and k="N - 1",
        OF 1 2 3 a[THEN conjunct2]]
    show "(\<exists>c' w' new. request up params c w
                = (Inr (the (json_body (up (calls w + (N - 1)) q))), c', w')
              \<and> calls w' = calls w + N
              \<and> trace w' = trace w @ new
              \<and> map erase new
                  = [Wait 0, Get q] @ concat (replicate (N - 1) [Resend 0, Get q]))"
      using assms(1,2) unfolding r by auto
  }
  {
    assume a: "(\<forall>j<M * Suc M. is_rate_limited (up (calls w + j) q))"
    have m: "Suc (M - 1) = M" using assms(2,3) by simp
    have all: "\<forall>j<Suc (M - 1) * Suc M. is_rate_limited (up (calls w + j) q)"
      using a unfolding m .
    have i: "(M - 1) * Suc M + M = M * Suc M - 1"
      using assms(2,3) by (cases M) simp_all
    from loop_rate_limited[where up=up and q=q and w=w and c=c and k="M - 1" and as="?as"
        and T=M, OF assms(4) tot lenM earlyM lastn all]
    show "(\<exists>c' w' new. request up params c w
                = (Inl (AlphaVantageError
                      (get_or (the (json_body (up (calls w + (M * Suc M - 1)) q))) ''Note''
                         (JString ''Rate limited''))), c', w')
              \<and> calls w' = calls w + M * Suc M
              \<and> trace w' = trace w @ new
              \<and> map erase new
                  = concat (replicate (M - 1)
                      ([Wait 0, Get q] @ concat (replicate M [Resend 0, Get q]) @ [Backoff (backoff_seconds (cfg c))]))
                    @ [Wait 0, Get q] @ concat (replicate M [Resend 0, Get q]))"
      unfolding r m i attempt_trace_def by simp
  }
qed

text \<open>One \<open>session.get\<close> against an upstream that always answers 429, three retries allowed.\<close>

lemma always_429_turn:
  "urlopen always_429 q \<lparr> retry_total = 3, retry_history = 0 \<rparr> w
     = (\<lparr> status_code = 429, retry_after = None, text_body = ''{}'', json_body = Some [] \<rparr>,
        w\<lparr> clock := clock w + 36 / 5, calls := calls w + 4,
           trace := trace w @ [Get q, Resend 0, Get q, Resend (12 / 5), Get q, Resend (24 / 5), Get q] \<rparr>)"
  by (simp add: urlopen.simps always_429_def is_retry_def status_forcelist_def increment_def
        retry_sleep_def get_backoff_time_def Let_def)

lemma upto_3: "[1..(3::int)] = [1, 2, 3]"
  by code_simp

text \<open>
  Three attempts allowed. A "Note" on the first two answers and then a good body: the body
  is returned after three calls and two sleeps of 20 seconds. A "Note" on every answer: the
  third one ends the request with that note. Status 429 on the first two answers: the
  limiter is asked once and three requests are sent, the adapter sleeping 2.4 seconds before
  the third. Status 429 on every answer: twelve requests in three attempts, then
  "Rate limited".
\<close>

theorem request_retries_when_throttled_witness:
  "request note_twice fx_params (post_init demo_settings) world0
     = (Inr [(''Time Series'', JObject [])],
        \<lparr> cfg = demo_settings, limiter = \<lparr> min_interval_seconds = 15, last_call = 1040 \<rparr>,
          session = \<lparr> retry_total = 3, retry_history = 0 \<rparr> \<rparr>,
        \<lparr> clock = 1040, calls = 3,
          trace = [Wait 0, Get (fx_params @ [(''apikey'', ''demo'')]), Backoff 20,
                   Wait 0, Get (fx_params @ [(''apikey'', ''demo'')]), Backoff 20,
                   Wait 0, Get (fx_params @ [(''apikey'', ''demo'')])] \<rparr>)
   \<and> request always_note fx_params (post_init demo_settings) world0
     = (Inl (AlphaVantageError (JString ''slow down'')),
        \<lparr> cfg = demo_settings, limiter = \<lparr> min_interval_seconds = 15, last_call = 1040 \<rparr>,
          session = \<lparr> retry_total = 3, retry_history = 0 \<rparr> \<rparr>,
        \<lparr> clock = 1040, calls = 3,
          trace = [Wait 0, Get (fx_params @ [(''apikey'', ''demo'')]), Backoff 20,
                   Wait 0, Get (fx_params @ [(''apikey'', ''demo'')]), Backoff 20,
                   Wait 0, Get (fx_params @ [(''apikey'', ''demo'')])] \<rparr>)
   \<and> request throttled_twice fx_params (post_init demo_settings) world0
     = (Inr [(''Time Series'', JObject [])],
        \<lparr> cfg = demo_settings, limiter = \<lparr> min_interval_seconds = 15, last_call = 1000 \<rparr>,
          session = \<lparr> retry_total = 3, retry_history = 0 \<rparr> \<rparr>,
        \<lparr> clock = 5012 / 5, calls = 3,
          trace = [Wait 0, Get (fx_params @ [(''apikey'', ''demo'')]), Resend 0, Get (fx_params @ [(''apikey'', ''demo'')]), Resend (12 / 5), Get (fx_params @ [(''apikey'', ''demo'')])] \<rparr>)
   \<and> request always_429 fx_params (post_init demo_settings) world0
     = (Inl (AlphaVantageError (JString ''Rate limited'')),
        \<lparr> cfg = demo_settings, limiter = \<lparr> min_interval_seconds = 15, last_call = 5272 / 5 \<rparr>,
          session = \<lparr> retry_total = 3, retry_history = 0 \<rparr> \<rparr>,
        \<lparr> clock = 5308 / 5, calls = 12,
          trace = [Wait 0, Get (fx_params @ [(''apikey'', ''demo'')]), Resend 0, Get (fx_params @ [(''apikey'', ''demo'')]), Resend (12 / 5), Get (fx_params @ [(''apikey'', ''demo'')]),
                   Resend (24 / 5), Get (fx_params @ [(''apikey'', ''demo'')]), Backoff 20,
                   Wait 0, Get (fx_params @ [(''apikey'', ''demo'')]), Resend 0, Get (fx_params @ [(''apikey'', ''demo'')]), Resend (12 / 5), Get (fx_params @ [(''apikey'', ''demo'')]),
                   Resend (24 / 5), Get (fx_params @ [(''apikey'', ''demo'')]), Backoff 20,
                   Wait 0, Get (fx_params @ [(''apikey'', ''demo'')]), Resend 0, Get (fx_params @ [(''apikey'', ''demo'')]), Resend (12 / 5), Get (fx_params @ [(''apikey'', ''demo'')]),
                   Resend (24 / 5), Get (fx_params @ [(''apikey'', ''demo'')])] \<rparr>)
   \<and> (\<exists>c' w' new. request note_twice fx_params (post_init demo_settings) world0
                = (Inr (the (json_body (note_twice (calls world0 + (3 - 1)) (fx_params @ [(''apikey'', ''demo'')])))), c', w')
              \<and> calls w' = calls world0 + 3
              \<and> trace w' = trace world0 @ new
              \<and> map erase new
                  = concat (replicate (3 - 1) [Wait 0, Get (fx_params @ [(''apikey'', ''demo'')]), Backoff (backoff_seconds (cfg (post_init demo_settings)))])
                    @ [Wait 0, Get (fx_params @ [(''apikey'', ''demo'')])])
   \<and> (\<exists>c' w' new. request always_note fx_params (post_init demo_settings) world0
                = (Inl (AlphaVantageError
                      (get_or (the (json_body (always_note (calls world0 + (3 - 1)) (fx_params @ [(''apikey'', ''demo'')])))) ''Note''
                         (JString ''Rate limited''))), c', w')
              \<and> calls w' = calls world0 + 3
              \<and> trace w' = trace world0 @ new
              \<and> map erase new
                  = concat (replicate (3 - 1) [Wait 0, Get (fx_params @ [(''apikey'', ''demo'')]), Backoff (backoff_seconds (cfg (post_init demo_settings)))])
                    @ [Wait 0, Get (fx_params @ [(''apikey'', ''demo'')])])
   \<and> (\<exists>c' w' new. request throttled_twice fx_params (post_init demo_settings) world0
                = (Inr (the (json_body (throttled_twice (calls world0 + (3 - 1)) (fx_params @ [(''apikey'', ''demo'')])))), c', w')
              \<and> calls w' = calls world0 + 3
              \<and> trace w' = trace world0 @ new
              \<and> map erase new
                  = [Wait 0, Get (fx_params @ [(''apikey'', ''demo'')])] @ concat (replicate (3 - 1) [Resend 0, Get (fx_params @ [(''apikey'', ''demo'')])]))
   \<and> (\<exists>c' w' new. request always_429 fx_params (post_init demo_settings) world0
                = (Inl (AlphaVantageError
                      (get_or (the (json_body (always_429 (calls world0 + (3 * Suc 3 - 1)) (fx_params @ [(''apikey'', ''demo'')])))) ''Note''
                         (JString ''Rate limited''))), c', w')
              \<and> calls w' = calls world0 + 3 * Suc 3
              \<and> trace w' = trace world0 @ new
              \<and> map erase new
                  = concat (replicate (3 - 1)
                      ([Wait 0, Get (fx_params @ [(''apikey'', ''demo'')])] @ concat (replicate 3 [Resend 0, Get (fx_params @ [(''apikey'', ''demo'')])]) @ [Backoff (backoff_seconds (cfg (post_init demo_settings)))]))
                    @ [Wait 0, Get (fx_params @ [(''apikey'', ''demo'')])] @ concat (replicate 3 [Resend 0, Get (fx_params @ [(''apikey'', ''demo'')])]))"
proof -
  let ?c = "post_init demo_settings"
  let ?q = "fx_params @ [(''apikey'', ''demo'')]"
  have m: "max_retries (cfg ?c) = int 3"
    by (simp add: post_init_def demo_settings_def)
  have n: "(1::nat) \<le> 3" "(3::nat) \<le> 3" by simp_all
  have b: "0 \<le> backoff_seconds (cfg ?c)"
    by (simp add: post_init_def demo_settings_def)
  have s: "session ?c = Retry (max_retries (cfg ?c))"
    by (simp add: post_init_def)
  have q: "?q = dict_set ''apikey'' (alpha_vantage_api_key (cfg ?c)) fx_params"
    by (simp add: post_init_def demo_settings_def fx_params_def)
  have ea: "request note_twice fx_params (post_init demo_settings) world0
     = (Inr [(''Time Series'', JObject [])],
        \<lparr> cfg = demo_settings, limiter = \<lparr> min_interval_seconds = 15, last_call = 1040 \<rparr>,
          session = \<lparr> retry_total = 3, retry_history = 0 \<rparr> \<rparr>,
        \<lparr> clock = 1040, calls = 3,
          trace = [Wait 0, Get (fx_params @ [(''apikey'', ''demo'')]), Backoff 20,
                   Wait 0, Get (fx_params @ [(''apikey'', ''demo'')]), Backoff 20,
                   Wait 0, Get (fx_params @ [(''apikey'', ''demo'')])] \<rparr>)"
    by code_simp
  have ha: "(\<forall>j<3 - 1. is_throttled (note_twice (calls world0 + j) (fx_params @ [(''apikey'', ''demo'')]))) \<and> is_success (note_twice (calls world0 + (3 - 1)) (fx_params @ [(''apikey'', ''demo'')]))"
    by (simp add: world0_def note_twice_def ok_response_def is_throttled_def is_success_def
          is_rate_limited_def delivered_def status_forcelist_def has_key_def)
  note ia = request_retries_when_throttled[where c="?c" and M=3 and N=3 and q="?q"
      and params=fx_params and up=note_twice and w=world0, OF m n b s q,
      THEN conjunct1, THEN mp, OF ha]
  have ex: "request always_note fx_params (post_init demo_settings) world0
     = (Inl (AlphaVantageError (JString ''slow down'')),
        \<lparr> cfg = demo_settings, limiter = \<lparr> min_interval_seconds = 15, last_call = 1040 \<rparr>,
          session = \<lparr> retry_total = 3, retry_history = 0 \<rparr> \<rparr>,
        \<lparr> clock = 1040, calls = 3,
          trace = [Wait 0, Get (fx_params @ [(''apikey'', ''demo'')]), Backoff 20,
                   Wait 0, Get (fx_params @ [(''apikey'', ''demo'')]), Backoff 20,
                   Wait 0, Get (fx_params @ [(''apikey'', ''demo'')])] \<rparr>)"
    by code_simp
  have hx: "(\<forall>j<3. is_throttled (always_note (calls world0 + j) (fx_params @ [(''apikey'', ''demo'')])))"
    by (simp add: world0_def always_note_def ok_response_def is_throttled_def is_success_def
          is_rate_limited_def delivered_def status_forcelist_def has_key_def)
  note ix = request_retries_when_throttled[where c="?c" and M=3 and N=3 and q="?q"
      and params=fx_params and up=always_note and w=world0, OF m n b s q,
      THEN conjunct2, THEN conjunct1, THEN mp, OF hx]
  have eb: "request throttled_twice fx_params (post_init demo_settings) world0
     = (Inr [(''Time Series'', JObject [])],
        \<lparr> cfg = demo_settings, limiter = \<lparr> min_interval_seconds = 15, last_call = 1000 \<rparr>,
          session = \<lparr> retry_total = 3, retry_history = 0 \<rparr> \<rparr>,
        \<lparr> clock = 5012 / 5, calls = 3,
          trace = [Wait 0, Get (fx_params @ [(''apikey'', ''demo'')]), Resend 0, Get (fx_params @ [(''apikey'', ''demo'')]), Resend (12 / 5), Get (fx_params @ [(''apikey'', ''demo'')])] \<rparr>)"
    by code_simp
  have hb: "(\<forall>j<3 - 1. status_code (throttled_twice (calls world0 + j) (fx_params @ [(''apikey'', ''demo'')])) = 429) \<and> is_success (throttled_twice (calls world0 + (3 - 1)) (fx_params @ [(''apikey'', ''demo'')]))"
    by (simp add: world0_def throttled_twice_def ok_response_def is_throttled_def is_success_def
          is_rate_limited_def delivered_def status_forcelist_def has_key_def)
  note ib = request_retries_when_throttled[where c="?c" and M=3 and N=3 and q="?q"
      and params=fx_params and up=throttled_twice and w=world0, OF m n b s q,
      THEN conjunct2, THEN conjunct2, THEN conjunct1, THEN mp, OF hb]
  have ec: "request always_429 fx_params (post_init demo_settings) world0
     = (Inl (AlphaVantageError (JString ''Rate limited'')),
        \<lparr> cfg = demo_settings, limiter = \<lparr> min_interval_seconds = 15, last_call = 5272 / 5 \<rparr>,
          session = \<lparr> retry_total = 3, retry_history = 0 \<rparr> \<rparr>,
        \<lparr> clock = 5308 / 5, calls = 12,
          trace = [Wait 0, Get (fx_params @ [(''apikey'', ''demo'')]), Resend 0, Get (fx_params @ [(''apikey'', ''demo'')]), Resend (12 / 5), Get (fx_params @ [(''apikey'', ''demo'')]),
                   Resend (24 / 5), Get (fx_params @ [(''apikey'', ''demo'')]), Backoff 20,
                   Wait 0, Get (fx_params @ [(''apikey'', ''demo'')]), Resend 0, Get (fx_params @ [(''apikey'', ''demo'')]), Resend (12 / 5), Get (fx_params @ [(''apikey'', ''demo'')]),
                   Resend (24 / 5), Get (fx_params @ [(''apikey'', ''demo'')]), Backoff 20,
                   Wait 0, Get (fx_params @ [(''apikey'', ''demo'')]), Resend 0, Get (fx_params @ [(''apikey'', ''demo'')]), Resend (12 / 5), Get (fx_params @ [(''apikey'', ''demo'')]),
                   Resend (24 / 5), Get (fx_params @ [(''apikey'', ''demo'')])] \<rparr>)"
    by (simp add: request_def post_init_def demo_settings_def world0_def fx_params_def
          wait_def RateLimiter_def Retry_def session_get_def always_429_turn backoff_sleep_def
          has_key_def get_or_def Let_def upto_3)
  have hc: "(\<forall>j<3 * Suc 3. is_rate_limited (always_429 (calls world0 + j) (fx_params @ [(''apikey'', ''demo'')])))"
    by (simp add: world0_def always_429_def ok_response_def is_throttled_def is_success_def
          is_rate_limited_def delivered_def status_forcelist_def has_key_def)
  note ic = request_retries_when_throttled[where c="?c" and M=3 and N=3 and q="?q"
      and params=fx_params and up=always_429 and w=world0, OF m n b s q,
      THEN conjunct2, THEN conjunct2, THEN conjunct2, THEN mp, OF hc]
  from ea ex eb ec ia ix ib ic show ?thesis by (intro conjI) assumption+
qed

text \<open>
  Claim C4 as stated fails for HTTP 429. With two answers of status 429 before a good one
  the fetch does not make three rate-limited calls with the back-off of 20 seconds between
  them: the session's adapter sends the request again inside the first call. The limiter is
  asked once, and the only sleep is the adapter's own, of 2.4 seconds.
\<close>

theorem request_429_absorbed_counterexample:
  "status_code (throttled_twice 0 (fx_params @ [(''apikey'', ''demo'')])) = 429
   \<and> status_code (throttled_twice 1 (fx_params @ [(''apikey'', ''demo'')])) = 429
   \<and> is_success (throttled_twice 2 (fx_params @ [(''apikey'', ''demo'')]))
   \<and> request throttled_twice fx_params (post_init demo_settings) world0
     = (Inr [(''Time Series'', JObject [])],
        \<lparr> cfg = demo_settings, limiter = \<lparr> min_interval_seconds = 15, last_call = 1000 \<rparr>,
          session = \<lparr> retry_total = 3, retry_history = 0 \<rparr> \<rparr>,
        \<lparr> clock = 5012 / 5, calls = 3,
          trace = [Wait 0, Get (fx_params @ [(''apikey'', ''demo'')]), Resend 0, Get (fx_params @ [(''apikey'', ''demo'')]), Resend (12 / 5), Get (fx_params @ [(''apikey'', ''demo'')])] \<rparr>)"
  by code_simp

subsection \<open>The equity ladder\<close>

lemma request_refused:
  assumes "1 \<le> max_retries (cfg c)"
    and "is_refused (up (calls w) (dict_set ''apikey'' (alpha_vantage_api_key (cfg c)) params))"
  shows "\<exists>m c1 w1. request up params c w = (Inl (AlphaVantageError m), c1, w1)
           \<and> cfg c1 = cfg c \<and> calls w1 = Suc (calls w)"
proof -
  let ?q = "dict_set ''apikey'' (alpha_vantage_api_key (cfg c)) params"
  from assms(1) have as: "[1..max_retries (cfg c)] = 1 # [2..max_retries (cfg c)]"
    by (simp add: upto_rec1)
  from wait_effect[of c w] obtain rl w1 d where
    w: "wait (limiter c) w = (rl, w1)" "calls w1 = calls w" "trace w1 = trace w @ [Wait d]"
    by blast
  define w2 where "w2 = w1\<lparr> calls := Suc (calls w1), trace := trace w1 @ [Get ?q] \<rparr>"
  from assms(2) have dl: "delivered (up (calls w1) ?q)"
    using w(2) by (simp add: is_refused_def)
  have sg: "session_get up (c\<lparr> limiter := rl \<rparr>) ?q w1 = (up (calls w) ?q, w2)"
    using session_get_delivered[where up=up and w=w1 and q="?q", OF dl] w(2) by (simp add: w2_def)
  have "\<exists>m. request_loop up ?q (1 # [2..max_retries (cfg c)]) c w
           = (Inl (AlphaVantageError m), c\<lparr> limiter := rl \<rparr>, w2)"
    using w(1) sg assms(2)
    by (auto simp: is_refused_def Let_def split: option.splits)
  moreover have "calls w2 = Suc (calls w)" by (simp add: w2_def w)
  ultimately show ?thesis
    unfolding request_def as by auto
qed

lemma request_success:
  assumes "1 \<le> max_retries (cfg c)"
    and "is_success (up (calls w) (dict_set ''apikey'' (alpha_vantage_api_key (cfg c)) params))"
  shows "\<exists>c1 w1. request up params c w
             = (Inr (the (json_body (up (calls w)
                   (dict_set ''apikey'' (alpha_vantage_api_key (cfg c)) params)))), c1, w1)
           \<and> cfg c1 = cfg c \<and> calls w1 = Suc (calls w)"
proof -
  let ?q = "dict_set ''apikey'' (alpha_vantage_api_key (cfg c)) params"
  from assms(1) have as: "[1..max_retries (cfg c)] = 1 # [2..max_retries (cfg c)]"
    by (simp add: upto_rec1)
  from step_success[where up=up and w=w and q="?q" and a=1 and rest="[2..max_retries (cfg c)]"
      and c=c, OF assms(2)]
  show ?thesis unfolding request_def as by auto
qed

lemma map_of_dict_set: "map_of (dict_set k v d) k' = (if k' = k then Some v else map_of d k')"
  by (induction d) auto

lemma tagged_source_function:
  "map_of (tagged symbol f body) ''source_function'' = Some (JString f)"
  by (simp add: tagged_def map_of_dict_set)

lemma tier_params_simps:
  "tier_params symbol 0 = [(''function'', ''TIME_SERIES_DAILY_ADJUSTED''), (''symbol'', symbol),
                           (''outputsize'', ''full'')]"
  "tier_params symbol 1 = [(''function'', ''TIME_SERIES_DAILY''), (''symbol'', symbol),
                           (''outputsize'', ''full'')]"
  "tier_params symbol 2 = [(''function'', ''TIME_SERIES_DAILY''), (''symbol'', symbol),
                           (''outputsize'', ''compact'')]"
  by (simp_all add: tier_params_def attempts_def)

lemma fetch_equity_daily_unfold:
  "fetch_equity_daily up symbol c w =
     (case request up (tier_params symbol 0) c w of
        (Inr body, c1, w1) \<Rightarrow> (Inr (tagged symbol ''TIME_SERIES_DAILY_ADJUSTED'' body), c1, w1)
      | (Inl (AlphaVantageError m1), c1, w1) \<Rightarrow>
          (case request up (tier_params symbol 1) c1 w1 of
             (Inr body, c2, w2) \<Rightarrow> (Inr (tagged symbol ''TIME_SERIES_DAILY'' body), c2, w2)
           | (Inl (AlphaVantageError m2), c2, w2) \<Rightarrow>
               (case request up (tier_params symbol 2) c2 w2 of
                  (Inr body, c3, w3) \<Rightarrow> (Inr (tagged symbol ''TIME_SERIES_DAILY'' body), c3, w3)
                | (Inl (AlphaVantageError m3), c3, w3) \<Rightarrow> (Inl (AlphaVantageError m3), c3, w3)
                | (Inl e, c3, w3) \<Rightarrow> (Inl e, c3, w3))
           | (Inl e, c2, w2) \<Rightarrow> (Inl e, c2, w2))
      | (Inl e, c1, w1) \<Rightarrow> (Inl e, c1, w1))"
  by (simp add: fetch_equity_daily_def attempts_def tier_params_def tagged_def get_or_def
           split: prod.splits sum.splits py_error.splits)

text \<open>
  Claim C3, as the code has it. \<open>fetch_equity_daily\<close> runs \<open>_request\<close> for the adjusted
  full-history endpoint, then the unadjusted full-history endpoint, then the unadjusted compact
  endpoint, each only after the one before raised \<open>AlphaVantageError\<close>; it returns the first
  body that arrives, tagged with the symbol and with the API function of the attempt:
  \<open>TIME_SERIES_DAILY_ADJUSTED\<close> for the first, \<open>TIME_SERIES_DAILY\<close> for the second and for
  the third alike. When all three attempts fail, the error of the third is raised. When the
  first two requests are refused without a retry and the third is answered well, the run
  sends exactly 3 calls.
\<close>

theorem equity_ladder:
  "(\<forall>body c1 w1. request up (tier_params symbol 0) c w = (Inr body, c1, w1) \<longrightarrow>
      fetch_equity_daily up symbol c w
        = (Inr (tagged symbol ''TIME_SERIES_DAILY_ADJUSTED'' body), c1, w1))
   \<and> (\<forall>m1 c1 w1. request up (tier_params symbol 0) c w = (Inl (AlphaVantageError m1), c1, w1) \<longrightarrow>
        (\<forall>body c2 w2. request up (tier_params symbol 1) c1 w1 = (Inr body, c2, w2) \<longrightarrow>
           fetch_equity_daily up symbol c w
             = (Inr (tagged symbol ''TIME_SERIES_DAILY'' body), c2, w2))
      \<and> (\<forall>m2 c2 w2. request up (tier_params symbol 1) c1 w1 = (Inl (AlphaVantageError m2), c2, w2) \<longrightarrow>
           (\<forall>body c3 w3. request up (tier_params symbol 2) c2 w2 = (Inr body, c3, w3) \<longrightarrow>
              fetch_equity_daily up symbol c w
                = (Inr (tagged symbol ''TIME_SERIES_DAILY'' body), c3, w3))
         \<and> (\<forall>e c3 w3. request up (tier_params symbol 2) c2 w2 = (Inl e, c3, w3) \<longrightarrow>
              fetch_equity_daily up symbol c w = (Inl e, c3, w3))))
   \<and> (1 \<le> max_retries (cfg c)
        \<and> is_refused (up (calls w)
             (dict_set ''apikey'' (alpha_vantage_api_key (cfg c)) (tier_params symbol 0)))
        \<and> is_refused (up (calls w + 1)
             (dict_set ''apikey'' (alpha_vantage_api_key (cfg c)) (tier_params symbol 1)))
        \<and> is_success (up (calls w + 2)
             (dict_set ''apikey'' (alpha_vantage_api_key (cfg c)) (tier_params symbol 2)))
      \<longrightarrow> (\<exists>c' w'. fetch_equity_daily up symbol c w
              = (Inr (tagged symbol ''TIME_SERIES_DAILY''
                   (the (json_body (up (calls w + 2)
                      (dict_set ''apikey'' (alpha_vantage_api_key (cfg c))
                         (tier_params symbol 2)))))), c', w')
            \<and> calls w' = calls w + 3))"
proof (intro conjI allI impI)
  fix body c1 w1
  assume "request up (tier_params symbol 0) c w = (Inr body, c1, w1)"
  then show "fetch_equity_daily up symbol c w
        = (Inr (tagged symbol ''TIME_SERIES_DAILY_ADJUSTED'' body), c1, w1)"
    by (simp add: fetch_equity_daily_unfold)
next
  fix m1 c1 w1 body c2 w2
  assume "request up (tier_params symbol 0) c w = (Inl (AlphaVantageError m1), c1, w1)"
    and "request up (tier_params symbol 1) c1 w1 = (Inr body, c2, w2)"
  then show "fetch_equity_daily up symbol c w
             = (Inr (tagged symbol ''TIME_SERIES_DAILY'' body), c2, w2)"
    by (simp add: fetch_equity_daily_unfold)
next
  fix m1 c1 w1 m2 c2 w2 body c3 w3
  assume "request up (tier_params symbol 0) c w = (Inl (AlphaVantageError m1), c1, w1)"
    and "request up (tier_params symbol 1) c1 w1 = (Inl (AlphaVantageError m2), c2, w2)"
    and "request up (tier_params symbol 2) c2 w2 = (Inr body, c3, w3)"
  then show "fetch_equity_daily up symbol c w
                = (Inr (tagged symbol ''TIME_SERIES_DAILY'' body), c3, w3)"
    by (simp add: fetch_equity_daily_unfold)
next
  fix m1 c1 w1 m2 c2 w2 e c3 w3
  assume "request up (tier_params symbol 0) c w = (Inl (AlphaVantageError m1), c1, w1)"
    and "request up (tier_params symbol 1) c1 w1 = (Inl (AlphaVantageError m2), c2, w2)"
    and "request up (tier_params symbol 2) c2 w2 = (Inl e, c3, w3)"
  then show "fetch_equity_daily up symbol c w = (Inl e, c3, w3)"
    by (simp add: fetch_equity_daily_unfold split: py_error.splits)
next
  let ?q = "\<lambda>i. dict_set ''apikey'' (alpha_vantage_api_key (cfg c)) (tier_params symbol i)"
  assume a: "1 \<le> max_retries (cfg c)
        \<and> is_refused (up (calls w) (?q 0))
        \<and> is_refused (up (calls w + 1) (?q 1))
        \<and> is_success (up (calls w + 2) (?q 2))"
  from a request_refused[of c up w "tier_params symbol 0"] obtain m1 c1 w1 where
    1: "request up (tier_params symbol 0) c w = (Inl (AlphaVantageError m1), c1, w1)"
       "cfg c1 = cfg c" "calls w1 = Suc (calls w)"
    by blast
  from a 1 request_refused[of c1 up w1 "tier_params symbol 1"] obtain m2 c2 w2 where
    2: "request up (tier_params symbol 1) c1 w1 = (Inl (AlphaVantageError m2), c2, w2)"
       "cfg c2 = cfg c" "calls w2 = Suc (Suc (calls w))"
    by auto
  from a 2 have "is_success (up (calls w2)
      (dict_set ''apikey'' (alpha_vantage_api_key (cfg c2)) (tier_params symbol 2)))"
    by (simp add: numeral_2_eq_2)
  from a 2 request_success[of c2 up w2 "tier_params symbol 2", OF _ this] obtain c3 w3 where
    3: "request up (tier_params symbol 2) c2 w2
          = (Inr (the (json_body (up (calls w2) (?q 2)))), c3, w3)"
       "calls w3 = Suc (calls w2)"
    by auto
  show "\<exists>c' w'. fetch_equity_daily up symbol c w
              = (Inr (tagged symbol ''TIME_SERIES_DAILY''
                   (the (json_body (up (calls w + 2) (?q 2))))), c', w')
            \<and> calls w' = calls w + 3"
    using 1 2 3 by (intro exI[of _ c3] exI[of _ w3]) (simp add: fetch_equity_daily_unfold numeral_2_eq_2)
qed

text \<open>
  An upstream that serves compact history only: three calls, the third body returned with
  the tag \<open>TIME_SERIES_DAILY\<close>. An upstream that refuses everything: the error names the
  compact request.
\<close>

theorem equity_ladder_witness:
  "fetch_equity_daily compact_only ''IBM'' (post_init demo_settings) world0
     = (Inr [(''Time Series (Daily)'', JObject []),
             (''source_function'', JString ''TIME_SERIES_DAILY''),
             (''symbol'', JString ''IBM'')],
        \<lparr> cfg = demo_settings, limiter = \<lparr> min_interval_seconds = 15, last_call = 1030 \<rparr>,
          session = \<lparr> retry_total = 3, retry_history = 0 \<rparr> \<rparr>,
        \<lparr> clock = 1030, calls = 3,
          trace = [Wait 0,
                   Get [(''function'', ''TIME_SERIES_DAILY_ADJUSTED''), (''symbol'', ''IBM''),
                        (''outputsize'', ''full''), (''apikey'', ''demo'')],
                   Wait 15,
                   Get [(''function'', ''TIME_SERIES_DAILY''), (''symbol'', ''IBM''),
                        (''outputsize'', ''full''), (''apikey'', ''demo'')],
                   Wait 15,
                   Get [(''function'', ''TIME_SERIES_DAILY''), (''symbol'', ''IBM''),
                        (''outputsize'', ''compact''), (''apikey'', ''demo'')]] \<rparr>)
   \<and> fst (fetch_equity_daily refuse_all ''IBM'' (post_init demo_settings) world0)
     = Inl (AlphaVantageError (JString ''no TIME_SERIES_DAILY compact''))
   \<and> (\<exists>c' w'. fetch_equity_daily compact_only ''IBM'' (post_init demo_settings) world0
         = (Inr (tagged ''IBM'' ''TIME_SERIES_DAILY''
              (the (json_body (compact_only (calls world0 + 2)
                 (dict_set ''apikey'' (alpha_vantage_api_key (cfg (post_init demo_settings)))
                    (tier_params ''IBM'' 2)))))), c', w')
       \<and> calls w' = calls world0 + 3)"
proof -
  let ?c = "post_init demo_settings"
  have e: "fetch_equity_daily compact_only ''IBM'' ?c world0
     = (Inr [(''Time Series (Daily)'', JObject []),
             (''source_function'', JString ''TIME_SERIES_DAILY''),
             (''symbol'', JString ''IBM'')],
        \<lparr> cfg = demo_settings, limiter = \<lparr> min_interval_seconds = 15, last_call = 1030 \<rparr>,
          session = \<lparr> retry_total = 3, retry_history = 0 \<rparr> \<rparr>,
        \<lparr> clock = 1030, calls = 3,
          trace = [Wait 0,
                   Get [(''function'', ''TIME_SERIES_DAILY_ADJUSTED''), (''symbol'', ''IBM''),
                        (''outputsize'', ''full''), (''apikey'', ''demo'')],
                   Wait 15,
                   Get [(''function'', ''TIME_SERIES_DAILY''), (''symbol'', ''IBM''),
                        (''outputsize'', ''full''), (''apikey'', ''demo'')],
                   Wait 15,
                   Get [(''function'', ''TIME_SERIES_DAILY''), (''symbol'', ''IBM''),
                        (''outputsize'', ''compact''), (''apikey'', ''demo'')]] \<rparr>)"
    by code_simp
  have l: "fst (fetch_equity_daily refuse_all ''IBM'' ?c world0)
     = Inl (AlphaVantageError (JString ''no TIME_SERIES_DAILY compact''))"
    by code_simp
  have h: "1 \<le> max_retries (cfg ?c)
        \<and> is_refused (compact_only (calls world0)
             (dict_set ''apikey'' (alpha_vantage_api_key (cfg ?c)) (tier_params ''IBM'' 0)))
        \<and> is_refused (compact_only (calls world0 + 1)
             (dict_set ''apikey'' (alpha_vantage_api_key (cfg ?c)) (tier_params ''IBM'' 1)))
        \<and> is_success (compact_only (calls world0 + 2)
             (dict_set ''apikey'' (alpha_vantage_api_key (cfg ?c)) (tier_params ''IBM'' 2)))"
    by code_simp
  note i = equity_ladder[where up=compact_only and symbol="''IBM''" and c="?c" and w=world0,
      THEN conjunct2, THEN conjunct2, rule_format, OF h]
  from e l i show ?thesis by (intro conjI) assumption+
qed

text \<open>
  Claim C3 as stated fails for the tag: it does not tell the variant. A run that stops at
  the full-history endpoint and a run that stops at the compact endpoint return the same
  payload, tagged \<open>TIME_SERIES_DAILY\<close>; there is no tag of the compact endpoint.
\<close>

theorem equity_tag_counterexample:
  "fetch_equity_daily adjusted_is_premium ''IBM'' (post_init demo_settings) world0
     = (Inr [(''Time Series (Daily)'', JObject []),
             (''source_function'', JString ''TIME_SERIES_DAILY''),
             (''symbol'', JString ''IBM'')],
        \<lparr> cfg = demo_settings, limiter = \<lparr> min_interval_seconds = 15, last_call = 1015 \<rparr>,
          session = \<lparr> retry_total = 3, retry_history = 0 \<rparr> \<rparr>,
        \<lparr> clock = 1015, calls = 2,
          trace = [Wait 0,
                   Get [(''function'', ''TIME_SERIES_DAILY_ADJUSTED''), (''symbol'', ''IBM''),
                        (''outputsize'', ''full''), (''apikey'', ''demo'')],
                   Wait 15,
                   Get [(''function'', ''TIME_SERIES_DAILY''), (''symbol'', ''IBM''),
                        (''outputsize'', ''full''), (''apikey'', ''demo'')]] \<rparr>)
   \<and> fetch_equity_daily compact_only ''IBM'' (post_init demo_settings) world0
     = (Inr [(''Time Series (Daily)'', JObject []),
             (''source_function'', JString ''TIME_SERIES_DAILY''),
             (''symbol'', JString ''IBM'')],
        \<lparr> cfg = demo_settings, limiter = \<lparr> min_interval_seconds = 15, last_call = 1030 \<rparr>,
          session = \<lparr> retry_total = 3, retry_history = 0 \<rparr> \<rparr>,
        \<lparr> clock = 1030, calls = 3,
          trace = [Wait 0,
                   Get [(''function'', ''TIME_SERIES_DAILY_ADJUSTED''), (''symbol'', ''IBM''),
                        (''outputsize'', ''full''), (''apikey'', ''demo'')],
                   Wait 15,
                   Get [(''function'', ''TIME_SERIES_DAILY''), (''symbol'', ''IBM''),
                        (''outputsize'', ''full''), (''apikey'', ''demo'')],
                   Wait 15,
                   Get [(''function'', ''TIME_SERIES_DAILY''), (''symbol'', ''IBM''),
                        (''outputsize'', ''compact''), (''apikey'', ''demo'')]] \<rparr>)"
  by code_simp

section \<open>Properties of the configuration\<close>




section \<open>Properties of the payload normalizer\<close>

subsection \<open>What \<open>drop_duplicates\<close> keeps\<close>

text \<open>
  Of a frame in date order \<open>drop_duplicates(keep="last")\<close> leaves one row per key, still in
  date order, and the row left for a key is the last one of the sorted frame. Which payload
  entry that is depends on where the sort put the rows of equal date.
\<close>

lemma drop_duplicates_last_keys:
  "key ` set (drop_duplicates_last key xs) = key ` set xs"
  by (induction xs) auto

lemma drop_duplicates_last_subset:
  "set (drop_duplicates_last key xs) \<subseteq> set xs"
  by (induction xs) auto

lemma drop_duplicates_last_distinct:
  "distinct (map key (drop_duplicates_last key xs))"
proof (induction xs)
  case Nil
  then show ?case by simp
next
  case (Cons x xs)
  have "key x \<notin> key ` set (drop_duplicates_last key xs)" if "key x \<notin> key ` set xs"
    using that by (simp add: drop_duplicates_last_keys)
  with Cons show ?case by auto
qed

lemma drop_duplicates_last_sorted:
  "sorted (map f xs) \<Longrightarrow> sorted (map f (drop_duplicates_last key xs))"
proof (induction xs)
  case Nil
  then show ?case by simp
next
  case (Cons x xs)
  then have "sorted (map f (drop_duplicates_last key xs))" by simp
  moreover have "\<forall>y\<in>set (drop_duplicates_last key xs). f x \<le> f y"
    using Cons.prems drop_duplicates_last_subset[of key xs] by auto
  ultimately show ?case by auto
qed

text \<open>The row that stays for a key is the last row of the frame with that key.\<close>

lemma drop_duplicates_last_keeps_last:
  "filter (\<lambda>r. key r = k) (drop_duplicates_last key xs)
     = (if k \<in> key ` set xs then [last (filter (\<lambda>r. key r = k) xs)] else [])"
proof (induction xs)
  case Nil
  then show ?case by simp
next
  case (Cons x xs)
  show ?case
  proof (cases "key x = k")
    case False
    then show ?thesis using Cons by auto
  next
    case True
    show ?thesis
    proof (cases "k \<in> key ` set xs")
      case later: True
      then have "filter (\<lambda>r. key r = k) xs \<noteq> []"
        by (auto simp: filter_empty_conv)
      then show ?thesis using Cons True later by simp
    next
      case none: False
      then have "filter (\<lambda>r. key r = k) xs = []"
        by (auto simp: filter_empty_conv)
      then show ?thesis using Cons True none by simp
    qed
  qed
qed

subsection \<open>A day that appears twice\<close>

text \<open>
  Claim C1 at the refreshed payload. \<open>parse_fx\<close> returns 17 rows, one per day, in ascending
  date order. For 25 January (day 19747) the row left has the close 1.0830 of the entry seen
  first in the payload, not the close 1.0840 of the entry seen last: the partition step of
  the default sort has put the two rows of that day in reverse order before
  \<open>drop_duplicates\<close> looks at them.
\<close>

theorem finalize_keeps_first_seen:
  "map_option (map_sum id (map (\<lambda>r. (p_date r, p_close r))))
     (parse_fx demo_to_date demo_float hs refreshed_payload eurusd)
   = Some (Inr
       [(19734, Some (10970 / 10000)), (19735, Some (10960 / 10000)), (19736, Some
        (10950 / 10000)), (19737, Some (10940 / 10000)), (19738, Some (10930 / 10000)),
        (19739, Some (10920 / 10000)), (19740, Some (10910 / 10000)), (19741, Some
        (10900 / 10000)), (19742, Some (10890 / 10000)), (19743, Some (10880 / 10000)),
        (19744, Some (10870 / 10000)), (19745, Some (10860 / 10000)), (19746, Some
        (10850 / 10000)), (19747, Some (10830 / 10000)), (19748, Some (10820 / 10000)),
        (19749, Some (10810 / 10000)), (19750, Some (10800 / 10000))])"
  by code_simp

end
